theory Spec2Isabelle
  imports Complex_Main "HOL-Library.Sublist"
begin

section \<open>Data of \<^verbatim>\<open>scripts/pick_place_demo.py\<close>\<close>

text \<open>
  Coordinates and joint angles are Python floats; they are modelled as reals. The only
  arithmetic of the program is the addition of the pre-grasp offset to a \<open>z\<close> coordinate.
  A pose is the tuple \<open>((x, y, z), (ew, ex, ey, ez))\<close>; a joint configuration is a
  dictionary from joint names to angles.
\<close>

type_synonym point = "real \<times> real \<times> real"
type_synonym quaternion = "real \<times> real \<times> real \<times> real"
type_synonym pose = "point \<times> quaternion"
type_synonym joint_dict = "string \<rightharpoonup> real"

text \<open>
  \<^verbatim>\<open>class JointResult: jangles = {}; valid = False\<close>. A fresh instance reads the class
  attributes: the empty dictionary and \<open>False\<close>.
\<close>

record JointResult =
  jangles :: joint_dict
  valid :: bool

definition JointResult_new :: JointResult where
  "JointResult_new = \<lparr>jangles = Map.empty, valid = False\<rparr>"

text \<open>The exceptions the program can meet; \<open>OtherError\<close> stands for any other class.\<close>

datatype exn =
    KeyError string
  | IndexError
  | ValueError
  | ROSException
  | ServiceException
  | OtherError string

text \<open>The ROS messages, with the fields the program reads or writes.\<close>

record PoseStamped =
  frame_id :: string
  pose_position :: point
  pose_orientation :: quaternion

record JointState =
  name :: "string list"
  position :: "real list"

datatype seed_mode_t = SEED_AUTO | SEED_USER | SEED_CURRENT | SEED_NS_MAP

record SolvePositionIKRequest =
  pose_stamp :: "PoseStamped list"
  tip_names :: "string list"
  seed_mode :: seed_mode_t
  seed_angles :: "JointState list"

record SolvePositionIKResponse =
  joints :: "JointState list"
  result_type :: "int list"

section \<open>Effects\<close>

text \<open>
  Every call that leaves the program is an event of the history: the calls to rospy, to
  the arm (\<open>limb\<close>), to the gripper and to the head display. \<open>GetIk pose q out\<close> is the
  record of one finished call \<open>get_ik(pose, q)\<close> with its outcome \<open>out\<close>: the exception
  it raised, or the \<open>JointResult\<close> it returned.
  A log call is recorded with its format string, on one line; a pause with its duration; a
  wait for the service with its name and timeout.
\<close>

datatype event =
    InitNode string
  | WaitForService string real
  | CallService string SolvePositionIKRequest
  | LogErr string
  | LogInfo string
  | GetIk pose joint_dict "exn + JointResult"
  | MoveToJointPositions joint_dict
  | MoveToNeutral
  | Calibrate
  | SetPosition real
  | GripperOpen
  | Sleep real
  | DisplayImage string

text \<open>
  What the program cannot decide is a parameter: the answers of the IK service node (which
  may depend on everything that happened before), the gripper found at startup, the joint
  angles the arm reports, and the helpers of the repository that are not in this file.
\<close>

record world =
  wait_for_service :: "event list \<Rightarrow> string \<Rightarrow> real \<Rightarrow> exn option"
  ik_client :: "event list \<Rightarrow> SolvePositionIKRequest \<Rightarrow> exn + SolvePositionIKResponse"
  gripper_new :: "exn option"
  gripper_calibrate :: "exn option"
  MAX_POSITION :: real
  joint_angles :: "event list \<Rightarrow> joint_dict"
  get_pkg_dir :: "string \<Rightarrow> string"
  quaternionFromAxisAngle :: "real \<Rightarrow> point \<Rightarrow> quaternion"

text \<open>
  A statement takes the history and returns its value, or the exception it raised, with
  the history extended by its events.
\<close>

type_synonym 'a prog = "event list \<Rightarrow> (exn + 'a) \<times> event list"

definition ret :: "'a \<Rightarrow> 'a prog" where
  "ret a = (\<lambda>h. (Inr a, h))"

definition raise :: "exn \<Rightarrow> 'a prog" where
  "raise e = (\<lambda>h. (Inl e, h))"

definition andthen :: "'a prog \<Rightarrow> ('a \<Rightarrow> 'b prog) \<Rightarrow> 'b prog" where
  "andthen m f = (\<lambda>h. case m h of (Inl e, h') \<Rightarrow> (Inl e, h') | (Inr a, h') \<Rightarrow> f a h')"

definition try_except :: "'a prog \<Rightarrow> (exn \<Rightarrow> bool) \<Rightarrow> (exn \<Rightarrow> 'a prog) \<Rightarrow> 'a prog" where
  "try_except m caught handler =
     (\<lambda>h. case m h of
            (Inl e, h') \<Rightarrow> if caught e then handler e h' else (Inl e, h')
          | (Inr a, h') \<Rightarrow> (Inr a, h'))"

definition emit :: "event \<Rightarrow> unit prog" where
  "emit e = (\<lambda>h. (Inr (), h @ [e]))"

text \<open>\<^verbatim>\<open>d[k]\<close> on a dictionary and \<^verbatim>\<open>xs[0]\<close> on a list.\<close>

definition getitem :: "(string \<rightharpoonup> 'v) \<Rightarrow> string \<Rightarrow> 'v prog" where
  "getitem d k = (case d k of None \<Rightarrow> raise (KeyError k) | Some v \<Rightarrow> ret v)"

definition item0 :: "'a list \<Rightarrow> 'a prog" where
  "item0 xs = (case xs of [] \<Rightarrow> raise IndexError | x # _ \<Rightarrow> ret x)"

text \<open>The list display \<^verbatim>\<open>[d[k0], d[k1], ...]\<close>, evaluated left to right.\<close>

fun getitems :: "(string \<rightharpoonup> 'v) \<Rightarrow> string list \<Rightarrow> 'v list prog" where
  "getitems d [] = ret []"
| "getitems d (k # ks) =
     andthen (getitem d k) (\<lambda>v. andthen (getitems d ks) (\<lambda>vs. ret (v # vs)))"

text \<open>\<^verbatim>\<open>dict(zip(names, positions))\<close>: of two pairs with one key the later one stays.\<close>

definition dict_zip :: "string list \<Rightarrow> real list \<Rightarrow> joint_dict" where
  "dict_zip names positions = map_of (rev (zip names positions))"

text \<open>The calls into rospy and the robot interface.\<close>

definition rospy_wait_for_service :: "world \<Rightarrow> string \<Rightarrow> real \<Rightarrow> unit prog" where
  "rospy_wait_for_service w serv_name timeout =
     (\<lambda>h. (case wait_for_service w h serv_name timeout of Some e \<Rightarrow> Inl e | None \<Rightarrow> Inr (),
           h @ [WaitForService serv_name timeout]))"

definition call_ik_client ::
    "world \<Rightarrow> string \<Rightarrow> SolvePositionIKRequest \<Rightarrow> SolvePositionIKResponse prog" where
  "call_ik_client w serv_name ik_request =
     (\<lambda>h. (ik_client w h ik_request, h @ [CallService serv_name ik_request]))"

definition move_to_joint_positions :: "joint_dict \<Rightarrow> unit prog" where
  "move_to_joint_positions q = emit (MoveToJointPositions q)"

definition move_to_neutral :: "unit prog" where
  "move_to_neutral = emit MoveToNeutral"

definition set_position :: "real \<Rightarrow> unit prog" where
  "set_position x = emit (SetPosition x)"

definition gripper_open :: "unit prog" where
  "gripper_open = emit GripperOpen"

definition rospy_sleep :: "real \<Rightarrow> unit prog" where
  "rospy_sleep d = emit (Sleep d)"

section \<open>The inverse kinematics call\<close>

text \<open>
  \<^verbatim>\<open>pose_to_dict_message(position, orientation)\<close>: the stamped pose in frame
  \<^verbatim>\<open>'base'\<close>, in a dictionary under the key \<^verbatim>\<open>'right'\<close>. The time stamp is left out.
\<close>

definition pose_to_dict_message :: "point \<Rightarrow> quaternion \<Rightarrow> (string \<rightharpoonup> PoseStamped)" where
  "pose_to_dict_message pos orientation =
     [''right'' \<mapsto> \<lparr>frame_id = ''base'', pose_position = pos, pose_orientation = orientation\<rparr>]"

definition joint_names :: "string list" where
  "joint_names = [''right_j0'', ''right_j1'', ''right_j2'', ''right_j3'',
                  ''right_j4'', ''right_j5'', ''right_j6'']"

text \<open>
  \<^verbatim>\<open>get_ik(pose, q_initial)\<close>. The seed is built before the \<^verbatim>\<open>try\<close>, so a missing
  joint name raises \<open>KeyError\<close> out of the function. Inside the \<^verbatim>\<open>try\<close>, the wait (at
  most 5.0) and the one service call; \<open>ServiceException\<close> and \<open>ROSException\<close> are
  caught, logged, and the fresh \<open>result\<close> is returned. \<open>None\<close> below is that early return.
\<close>

definition get_ik :: "world \<Rightarrow> pose \<Rightarrow> joint_dict \<Rightarrow> JointResult prog" where
  "get_ik w pose q_initial =
    (let pose_msg = pose_to_dict_message (fst pose) (snd pose);
         limb = ''right'';
         result = JointResult_new;
         serv_name = ''ExternalTools/'' @ limb @ ''/PositionKinematicsNode/IKService''
     in
     andthen (getitem pose_msg limb) (\<lambda>pm.
     andthen (getitems q_initial joint_names) (\<lambda>seed_position.
     (let ik_request = \<lparr>pose_stamp = [pm], tip_names = [''right_hand''],
                         seed_mode = SEED_USER,
                         seed_angles = [\<lparr>name = joint_names, position = seed_position\<rparr>]\<rparr>
      in
      andthen
        (try_except
           (andthen (rospy_wait_for_service w serv_name 5) (\<lambda>_.
            andthen (call_ik_client w serv_name ik_request) (\<lambda>ik_response.
            ret (Some ik_response))))
           (\<lambda>e. e = ServiceException \<or> e = ROSException)
           (\<lambda>e. andthen (emit (LogErr ''Service call failed: %s'')) (\<lambda>_. ret None)))
        (\<lambda>answered.
           case answered of
             None \<Rightarrow> ret result
           | Some ik_response \<Rightarrow>
               andthen (item0 (result_type ik_response)) (\<lambda>code.
               if code > 0 then
                 andthen (emit (LogInfo ''Valid joints from seed: %s'')) (\<lambda>_.
                 andthen (item0 (joints ik_response)) (\<lambda>solution.
                 (let limb_joints = dict_zip (name solution) (position solution) in
                  andthen (emit (LogInfo ''IK Joint Solution: %s'')) (\<lambda>_.
                  ret (result\<lparr>jangles := limb_joints, valid := True\<rparr>)))))
               else
                 andthen (emit (LogErr ''INVALID POSE - No valid joint solution found.'')) (\<lambda>_.
                 andthen (emit (LogErr ''Result Error %d'')) (\<lambda>_.
                 ret result))))))))"

text \<open>A call of \<open>get_ik\<close> as the callers make it: the call, then its record in the history.\<close>

definition call_get_ik :: "world \<Rightarrow> pose \<Rightarrow> joint_dict \<Rightarrow> JointResult prog" where
  "call_get_ik w pose q_initial =
     (\<lambda>h. case get_ik w pose q_initial h of (out, h') \<Rightarrow> (out, h' @ [GetIk pose q_initial out]))"

section \<open>Pick and place\<close>

text \<open>
  \<^verbatim>\<open>pick_place(limb, gripper, pose_initial, pose_final, gripper_opening, zpre_grasp, qinit)\<close>:
  six times a pose, \<open>get_ik\<close> from the \<open>jangles\<close> of the previous result, and the move when
  the result is valid; the gripper is closed after the second and opened after the fifth.
\<close>

definition pick_place ::
    "world \<Rightarrow> pose \<Rightarrow> pose \<Rightarrow> real \<Rightarrow> real \<Rightarrow> joint_dict \<Rightarrow> unit prog" where
  "pick_place w pose_initial pose_final gripper_opening zpre_grasp qinit =
    (let xi = fst (fst pose_initial);
         yi = fst (snd (fst pose_initial));
         zi = snd (snd (fst pose_initial));
         quat_i = snd pose_initial;
         xf = fst (fst pose_final);
         yf = fst (snd (fst pose_final));
         zf = snd (snd (fst pose_final));
         quat_f = snd pose_final
     in
     andthen (call_get_ik w ((xi, yi, zi + zpre_grasp), quat_i) qinit) (\<lambda>result.
     andthen (if valid result then move_to_joint_positions (jangles result) else ret ()) (\<lambda>_.
     andthen (call_get_ik w ((xi, yi, zi), quat_i) (jangles result)) (\<lambda>result.
     andthen (if valid result then move_to_joint_positions (jangles result) else ret ()) (\<lambda>_.
     andthen (set_position gripper_opening) (\<lambda>_.
     andthen (rospy_sleep 1) (\<lambda>_.
     andthen (call_get_ik w ((xi, yi, zi + zpre_grasp), quat_i) (jangles result)) (\<lambda>result.
     andthen (if valid result then move_to_joint_positions (jangles result) else ret ()) (\<lambda>_.
     andthen (call_get_ik w ((xf, yf, zf + zpre_grasp), quat_f) (jangles result)) (\<lambda>result.
     andthen (if valid result then move_to_joint_positions (jangles result) else ret ()) (\<lambda>_.
     andthen (call_get_ik w ((xf, yf, zf), quat_f) (jangles result)) (\<lambda>result.
     andthen (if valid result then move_to_joint_positions (jangles result) else ret ()) (\<lambda>_.
     andthen gripper_open (\<lambda>_.
     andthen (rospy_sleep 1) (\<lambda>_.
     andthen (call_get_ik w ((xf, yf, zf + zpre_grasp), quat_f) (jangles result)) (\<lambda>result.
     if valid result then move_to_joint_positions (jangles result) else ret ()))))))))))))))))"

section \<open>The demo script\<close>

text \<open>
  \<^verbatim>\<open>Gripper('right_gripper')\<close> and \<^verbatim>\<open>gripper.calibrate()\<close> raise what the world says;
  \<^verbatim>\<open>limb.joint_angles()\<close> reads the arm.
\<close>

definition new_gripper :: "world \<Rightarrow> unit prog" where
  "new_gripper w = (case gripper_new w of Some e \<Rightarrow> raise e | None \<Rightarrow> ret ())"

definition calibrate :: "world \<Rightarrow> unit prog" where
  "calibrate w =
     (\<lambda>h. (case gripper_calibrate w of Some e \<Rightarrow> Inl e | None \<Rightarrow> Inr (), h @ [Calibrate]))"

definition limb_joint_angles :: "world \<Rightarrow> joint_dict prog" where
  "limb_joint_angles w = (\<lambda>h. (Inr (joint_angles w h), h))"

definition display_image :: "string \<Rightarrow> unit prog" where
  "display_image path = emit (DisplayImage path)"

text \<open>
  \<^verbatim>\<open>main()\<close>. The gripper is set up inside \<^verbatim>\<open>try ... except ValueError\<close>, whose handler
  logs and returns (\<open>None\<close> below). Then the neutral pose, the open gripper, and the six
  cups, each with the quaternion of 180 degrees about \<open>y\<close>, the opening \<open>3.5*dgripper\<close>,
  the offset \<open>0.20\<close> and the neutral joint angles as seed.
\<close>

definition main :: "world \<Rightarrow> unit prog" where
  "main w =
    andthen (emit (InitNode ''MoveCartesian'')) (\<lambda>_.
    andthen
      (try_except
         (andthen (new_gripper w) (\<lambda>_.
          andthen (calibrate w) (\<lambda>_.
          (let nsteps = 5; dgripper = MAX_POSITION w / nsteps in ret (Some dgripper)))))
         (\<lambda>e. e = ValueError)
         (\<lambda>e. andthen (emit (LogErr ''Could not detect a gripper'')) (\<lambda>_. ret None)))
      (\<lambda>started.
         case started of
           None \<Rightarrow> ret ()
         | Some dgripper \<Rightarrow>
            (let folder = get_pkg_dir w ''sawyer_utec'' @ ''/images/'' in
             andthen (display_image (folder @ ''up1.jpg'')) (\<lambda>_.
             andthen move_to_neutral (\<lambda>_.
             andthen (limb_joint_angles w) (\<lambda>jangles_neutral.
             andthen gripper_open (\<lambda>_.
             (let quat = quaternionFromAxisAngle w 180 (0, 1, 0) in
        andthen (pick_place w ((0.6, 0.50, 0.03), quat) ((0.6, -0.5, 0.02), quat)
                   (3.5 * dgripper) 0.20 jangles_neutral) (\<lambda>_.
        andthen (pick_place w ((0.6, 0.40, 0.03), quat) ((0.6, -0.42, 0.02), quat)
                   (3.5 * dgripper) 0.20 jangles_neutral) (\<lambda>_.
        andthen (pick_place w ((0.6, 0.32, 0.03), quat) ((0.6, -0.34, 0.02), quat)
                   (3.5 * dgripper) 0.20 jangles_neutral) (\<lambda>_.
        andthen (pick_place w ((0.7, 0.5, 0.03), quat) ((0.6, -0.46, 0.12), quat)
                   (3.5 * dgripper) 0.20 jangles_neutral) (\<lambda>_.
        andthen (pick_place w ((0.7, 0.4, 0.03), quat) ((0.6, -0.38, 0.12), quat)
                   (3.5 * dgripper) 0.20 jangles_neutral) (\<lambda>_.
        andthen (pick_place w ((0.7, 0.32, 0.03), quat) ((0.6, -0.42, 0.22), quat)
                   (3.5 * dgripper) 0.20 jangles_neutral) (\<lambda>_.
        andthen move_to_neutral (\<lambda>_.
        andthen (limb_joint_angles w) (\<lambda>jangles_neutral.
        display_image (folder @ ''sleep1.png'')))))))))))))))))"

section \<open>Reading a history\<close>

text \<open>
  The diagnostics of \<open>get_ik\<close> (its wait, its service call, its log lines) are set apart
  from the commands: the records of the IK calls, the arm and gripper commands, the pauses.
\<close>

fun is_diag :: "event \<Rightarrow> bool" where
  "is_diag (WaitForService _ _) = True"
| "is_diag (CallService _ _) = True"
| "is_diag (LogErr _) = True"
| "is_diag (LogInfo _) = True"
| "is_diag _ = False"

definition commands :: "event list \<Rightarrow> event list" where
  "commands t = filter (\<lambda>e. \<not> is_diag e) t"

text \<open>The calls of \<open>get_ik\<close> in order: pose, seed, outcome.\<close>

fun solves :: "event list \<Rightarrow> (pose \<times> joint_dict \<times> (exn + JointResult)) list" where
  "solves [] = []"
| "solves (GetIk p q out # es) = (p, q, out) # solves es"
| "solves (_ # es) = solves es"

fun is_arm_motion :: "event \<Rightarrow> bool" where
  "is_arm_motion (MoveToJointPositions _) = True"
| "is_arm_motion MoveToNeutral = True"
| "is_arm_motion _ = False"

fun is_gripper_action :: "event \<Rightarrow> bool" where
  "is_gripper_action (SetPosition _) = True"
| "is_gripper_action GripperOpen = True"
| "is_gripper_action _ = False"

definition actions :: "event list \<Rightarrow> event list" where
  "actions t = filter (\<lambda>e. is_arm_motion e \<or> is_gripper_action e) t"

text \<open>The \<open>k\<close>-th call of \<open>get_ik\<close> (from 1) was made and returned a result.\<close>

definition returned :: "nat \<Rightarrow> event list \<Rightarrow> bool" where
  "returned k t =
     (case drop (k - 1) (solves t) of
        (p, q, Inr res) # _ \<Rightarrow> 0 < k
      | _ \<Rightarrow> False)"

text \<open>Every call of \<open>get_ik\<close> in the history returned a valid result.\<close>

definition all_valid :: "event list \<Rightarrow> bool" where
  "all_valid t =
     list_all (\<lambda>(p, q, out). case out of Inl e \<Rightarrow> False | Inr res \<Rightarrow> valid res) (solves t)"

text \<open>The move that follows a result: none when it is not valid.\<close>

definition mv :: "JointResult \<Rightarrow> event list" where
  "mv r = (if valid r then [MoveToJointPositions (jangles r)] else [])"

section \<open>Worlds to run the program in\<close>

definition q_neutral :: joint_dict where
  "q_neutral = map_of (zip joint_names [0, -1.18, 0, 2.18, 0, 0.57, 3.3161])"

text \<open>The service answers every request with a solution.\<close>

definition w_ok :: world where
  "w_ok = \<lparr>wait_for_service = (\<lambda>h nm t. None),
           ik_client = (\<lambda>h req. Inr \<lparr>joints = [\<lparr>name = joint_names,
                                                  position = [0.1, 0.2, 0.3, 0.4, 0.5, 0.6, 0.7]\<rparr>],
                                        result_type = [1]\<rparr>),
           gripper_new = None, gripper_calibrate = None, MAX_POSITION = 0.041667,
           joint_angles = (\<lambda>h. q_neutral), get_pkg_dir = (\<lambda>pkg. ''/ws/'' @ pkg),
           quaternionFromAxisAngle = (\<lambda>angle axis. (0, 0, 1, 0))\<rparr>"

text \<open>The service node is not there: every wait ends with \<open>ROSException\<close>.\<close>

definition w_down :: world where
  "w_down = w_ok\<lparr>wait_for_service := (\<lambda>h nm t. Some ROSException)\<rparr>"

text \<open>
  The service finds no solution for the poses at height \<open>z = 0.03\<close> (result code \<open>-1\<close>)
  and one for every other pose.
\<close>

definition w_no_grasp :: world where
  "w_no_grasp = w_ok\<lparr>ik_client := (\<lambda>h req.
      if map (\<lambda>m. snd (snd (pose_position m))) (pose_stamp req) = [0.03]
      then Inr \<lparr>joints = [], result_type = [-1]\<rparr>
      else ik_client w_ok h req)\<rparr>"

text \<open>No gripper is found: the constructor raises \<open>ValueError\<close>.\<close>

definition w_no_gripper :: world where
  "w_no_gripper = w_ok\<lparr>gripper_new := Some ValueError\<rparr>"

text \<open>The configuration and the result the answering service of \<open>w_ok\<close> gives.\<close>

definition q_ok :: joint_dict where
  "q_ok = dict_zip joint_names [0.1, 0.2, 0.3, 0.4, 0.5, 0.6, 0.7]"

definition r_ok :: JointResult where
  "r_ok = \<lparr>jangles = q_ok, valid = True\<rparr>"

section \<open>Reasoning about runs\<close>

text \<open>
  What is known of the outcome of \<open>get_ik\<close> from the seed alone: without
  \<^verbatim>\<open>'right_j0'\<close> in the seed it raises \<open>KeyError\<close>; when it returns a result the seed
  held all seven joints, and a result that is not valid is the fresh one.
\<close>

definition feasible :: "joint_dict \<Rightarrow> (exn + JointResult) \<Rightarrow> bool" where
  "feasible q out =
     (case out of
        Inl e \<Rightarrow> q ''right_j0'' = None \<longrightarrow> e = KeyError ''right_j0''
      | Inr res \<Rightarrow> list_all (\<lambda>n. q n \<noteq> None) joint_names \<and> (\<not> valid res \<longrightarrow> res = JointResult_new))"

text \<open>
  \<open>sat m Q\<close>: from every history, \<open>m\<close> extends the history, and \<open>Q\<close> holds of its outcome
  and of the commands it added.
\<close>

definition sat :: "'a prog \<Rightarrow> ((exn + 'a) \<Rightarrow> event list \<Rightarrow> bool) \<Rightarrow> bool" where
  "sat m Q = (\<forall>h. \<exists>t. snd (m h) = h @ t \<and> Q (fst (m h)) (commands t))"

text \<open>
  \<open>extends m\<close>: \<open>m\<close> only adds to the history. \<open>starts es m\<close>: what \<open>m\<close> adds begins
  with the events \<open>es\<close>.
\<close>

definition extends :: "'a prog \<Rightarrow> bool" where
  "extends m = (\<forall>h. \<exists>t. snd (m h) = h @ t)"

definition starts :: "event list \<Rightarrow> 'a prog \<Rightarrow> bool" where
  "starts es m = (\<forall>h. \<exists>t. snd (m h) = h @ es @ t)"

section \<open>The request of one call\<close>

text \<open>
  The name under which \<open>get_ik\<close> reaches the service, the request it sends for a pose and
  a seed that holds all seven joints, and the two events in which it talks to the service.
\<close>

definition IKService :: string where
  "IKService = ''ExternalTools/right/PositionKinematicsNode/IKService''"

definition ik_request_for :: "pose \<Rightarrow> joint_dict \<Rightarrow> SolvePositionIKRequest" where
  "ik_request_for p q =
     \<lparr>pose_stamp = [\<lparr>frame_id = ''base'', pose_position = fst p, pose_orientation = snd p\<rparr>],
      tip_names = [''right_hand''], seed_mode = SEED_USER,
      seed_angles = [\<lparr>name = joint_names, position = map (\<lambda>n. the (q n)) joint_names\<rparr>]\<rparr>"

fun is_service_event :: "event \<Rightarrow> bool" where
  "is_service_event (WaitForService _ _) = True"
| "is_service_event (CallService _ _) = True"
| "is_service_event _ = False"

section \<open>Lemmas\<close>

lemma commands_append [simp]: "commands (a @ b) = commands a @ commands b"
  by (simp add: commands_def)

lemma commands_Nil [simp]: "commands [] = []"
  by (simp add: commands_def)

lemma commands_Cons [simp]:
  "commands (e # es) = (if is_diag e then commands es else e # commands es)"
  by (simp add: commands_def)

lemma solves_append [simp]: "solves (a @ b) = solves a @ solves b"
  by (induction a rule: solves.induct) simp_all

lemma solves_commands [simp]: "solves (commands t) = solves t"
  by (induction t rule: solves.induct) simp_all

lemma solves_mv [simp]: "solves (mv r) = []"
  by (simp add: mv_def)

lemma getitems_hist: "getitems d ks h = (r, h') \<Longrightarrow> h' = h"
  by (induction ks arbitrary: h r)
     (fastforce simp: ret_def raise_def andthen_def getitem_def
        split: option.splits prod.splits sum.splits)+

lemma getitems_Inr:
  "getitems d ks h = (Inr vs, h') \<Longrightarrow> list_all (\<lambda>n. d n \<noteq> None) ks \<and> map Some vs = map d ks"
  by (induction ks arbitrary: h vs)
     (auto simp: ret_def raise_def andthen_def getitem_def
        split: option.splits prod.splits sum.splits)

lemma getitems_Inl:
  "getitems d ks h = (Inl e, h') \<Longrightarrow> \<exists>n \<in> set ks. d n = None \<and> e = KeyError n"
  by (induction ks arbitrary: h)
     (auto simp: ret_def raise_def andthen_def getitem_def
        split: option.splits prod.splits sum.splits)

lemma getitems_total:
  "list_all (\<lambda>n. d n \<noteq> None) ks \<Longrightarrow> getitems d ks h = (Inr (map (\<lambda>n. the (d n)) ks), h)"
  by (induction ks arbitrary: h)
     (auto simp: ret_def raise_def andthen_def getitem_def
        split: option.splits prod.splits sum.splits)

lemmas prog_defs = ret_def raise_def andthen_def getitem_def try_except_def emit_def item0_def
  pose_to_dict_message_def rospy_wait_for_service_def call_ik_client_def

lemma get_ik_events: "\<exists>d. snd (get_ik w p q h) = h @ d \<and> commands d = []"
  unfolding get_ik_def Let_def
  apply (cases "getitems q joint_names h")
  apply (frule getitems_hist)
  apply (auto simp: prog_defs
      split: option.splits prod.splits sum.splits list.splits if_splits)
  done

lemma get_ik_invalid:
  "get_ik w p q h = (Inr res, h') \<Longrightarrow> \<not> valid res \<Longrightarrow> res = JointResult_new"
  unfolding get_ik_def Let_def
  apply (cases "getitems q joint_names h")
  apply (auto simp: prog_defs
      split: option.splits prod.splits sum.splits list.splits if_splits)
  done

lemma get_ik_returned_seed:
  assumes "get_ik w p q h = (Inr res, h')"
  shows "list_all (\<lambda>n. q n \<noteq> None) joint_names"
proof -
  obtain a b where g: "getitems q joint_names h = (a, b)" by fastforce
  show ?thesis
  proof (cases a)
    case (Inl e)
    with g assms show ?thesis by (simp add: get_ik_def Let_def prog_defs)
  next
    case (Inr vs)
    with g getitems_Inr show ?thesis by blast
  qed
qed

lemma get_ik_missing:
  assumes "\<not> list_all (\<lambda>n. q n \<noteq> None) joint_names"
  shows "\<exists>n \<in> set joint_names. q n = None \<and> get_ik w p q h = (Inl (KeyError n), h)"
proof -
  obtain a b where g: "getitems q joint_names h = (a, b)" by fastforce
  have b: "b = h" using getitems_hist[OF g] .
  show ?thesis
  proof (cases a)
    case (Inl e)
    with g getitems_Inl obtain n where "n \<in> set joint_names" "q n = None" "e = KeyError n"
      by blast
    with g Inl b show ?thesis
      by (intro bexI[of _ n]) (simp_all add: get_ik_def Let_def prog_defs)
  next
    case (Inr vs)
    with g getitems_Inr assms show ?thesis by blast
  qed
qed

lemma get_ik_no_j0:
  "q ''right_j0'' = None \<Longrightarrow> get_ik w p q h = (Inl (KeyError ''right_j0''), h)"
  by (simp add: get_ik_def Let_def prog_defs joint_names_def)

lemma call_get_ik_run:
  assumes "call_get_ik w p q h = (out, h')"
  shows "\<exists>d. h' = h @ d @ [GetIk p q out] \<and> commands d = [] \<and> feasible q out"
proof -
  obtain d where d: "snd (get_ik w p q h) = h @ d" "commands d = []"
    using get_ik_events by blast
  from assms have o: "get_ik w p q h = (out, snd (get_ik w p q h))"
    and h': "h' = snd (get_ik w p q h) @ [GetIk p q out]"
    by (auto simp: call_get_ik_def split: prod.splits)
  have "feasible q out"
  proof (cases out)
    case (Inl e)
    then show ?thesis using o get_ik_no_j0[of q w p h] by (auto simp: feasible_def)
  next
    case (Inr res)
    then show ?thesis using o get_ik_invalid[of w p q h res] get_ik_returned_seed[of w p q h res]
      by (auto simp: feasible_def)
  qed
  with d h' show ?thesis by auto
qed

lemma sat_ret: "Q (Inr a) [] \<Longrightarrow> sat (ret a) Q"
  by (simp add: sat_def ret_def)

lemma sat_andthen:
  assumes "sat m (\<lambda>r c. case r of Inl e \<Rightarrow> Q (Inl e) c
                              | Inr a \<Rightarrow> sat (f a) (\<lambda>r' c'. Q r' (c @ c')))"
  shows "sat (andthen m f) Q"
  unfolding sat_def
proof
  fix h
  from assms obtain t where t: "snd (m h) = h @ t"
     "case fst (m h) of Inl e \<Rightarrow> Q (Inl e) (commands t)
       | Inr a \<Rightarrow> sat (f a) (\<lambda>r' c'. Q r' (commands t @ c'))"
    unfolding sat_def by blast
  show "\<exists>t. snd (andthen m f h) = h @ t \<and> Q (fst (andthen m f h)) (commands t)"
  proof (cases "fst (m h)")
    case (Inl e)
    then have "andthen m f h = (Inl e, h @ t)"
      using t(1) by (cases "m h") (simp add: andthen_def)
    with t(2) Inl show ?thesis by simp
  next
    case (Inr a)
    then have eq: "andthen m f h = f a (h @ t)"
      using t(1) by (cases "m h") (simp add: andthen_def)
    from t(2) Inr have "sat (f a) (\<lambda>r' c'. Q r' (commands t @ c'))"
      by simp
    then have "\<exists>t'. snd (f a (h @ t)) = (h @ t) @ t' \<and>
        Q (fst (f a (h @ t))) (commands t @ commands t')"
      unfolding sat_def by (rule spec)
    then obtain t' where "snd (f a (h @ t)) = (h @ t) @ t'"
        "Q (fst (f a (h @ t))) (commands t @ commands t')"
      by blast
    with eq show ?thesis by (intro exI[of _ "t @ t'"]) simp
  qed
qed

lemma sat_call_get_ik:
  assumes "\<And>out. feasible q out \<Longrightarrow> Q out [GetIk p q out]"
  shows "sat (call_get_ik w p q) Q"
  unfolding sat_def
proof
  fix h
  obtain out h' where c: "call_get_ik w p q h = (out, h')" by fastforce
  from call_get_ik_run[OF c] obtain d where
    "h' = h @ d @ [GetIk p q out]" "commands d = []" "feasible q out"
    by blast
  with c assms show "\<exists>t. snd (call_get_ik w p q h) = h @ t \<and> Q (fst (call_get_ik w p q h)) (commands t)"
    by (intro exI[of _ "d @ [GetIk p q out]"]) simp
qed

lemma sat_emit: "\<not> is_diag e \<Longrightarrow> Q (Inr ()) [e] \<Longrightarrow> sat (emit e) Q"
  by (simp add: sat_def emit_def)

lemma sat_step:
  assumes "\<And>e. feasible q (Inl e) \<Longrightarrow> Q (Inl e) [GetIk p q (Inl e)]"
      and "\<And>res. feasible q (Inr res) \<Longrightarrow> sat (f res) (\<lambda>r c. Q r (GetIk p q (Inr res) # c))"
  shows "sat (andthen (call_get_ik w p q) f) Q"
  by (rule sat_andthen, rule sat_call_get_ik) (auto simp: assms split: sum.split)

lemma sat_move_last:
  assumes "Q (Inr ()) (mv res)"
  shows "sat (if valid res then move_to_joint_positions (jangles res) else ret ()) Q"
  using assms by (auto simp: mv_def move_to_joint_positions_def intro: sat_ret sat_emit)

lemma sat_move:
  assumes "sat (f ()) (\<lambda>r c. Q r (mv res @ c))"
  shows "sat (andthen (if valid res then move_to_joint_positions (jangles res) else ret ()) f) Q"
  by (rule sat_andthen, rule sat_move_last) (simp add: assms)

lemma sat_emit_then:
  assumes "\<not> is_diag e" and "sat (f ()) (\<lambda>r c. Q r (e # c))"
  shows "sat (andthen (emit e) f) Q"
  by (rule sat_andthen, rule sat_emit) (simp_all add: assms)

lemma pick_place_sat:
  assumes "\<And>e. feasible q (Inl e) \<Longrightarrow> Q (Inl e) [GetIk ((xi, yi, zi + z), qi) q (Inl e)]"
    and "\<And>r1 e. feasible q (Inr r1) \<Longrightarrow> feasible (jangles r1) (Inl e) \<Longrightarrow>
           Q (Inl e) (GetIk ((xi, yi, zi + z), qi) q (Inr r1) # mv r1 @ [GetIk ((xi, yi, zi), qi) (jangles r1) (Inl e)])"
    and "\<And>r1 r2 e. feasible q (Inr r1) \<Longrightarrow> feasible (jangles r1) (Inr r2) \<Longrightarrow>
           feasible (jangles r2) (Inl e) \<Longrightarrow>
           Q (Inl e) (GetIk ((xi, yi, zi + z), qi) q (Inr r1) # mv r1 @
           GetIk ((xi, yi, zi), qi) (jangles r1) (Inr r2) # mv r2 @
           [SetPosition g, Sleep 1, GetIk ((xi, yi, zi + z), qi) (jangles r2) (Inl e)])"
    and "\<And>r1 r2 r3 e. feasible q (Inr r1) \<Longrightarrow> feasible (jangles r1) (Inr r2) \<Longrightarrow>
           feasible (jangles r2) (Inr r3) \<Longrightarrow> feasible (jangles r3) (Inl e) \<Longrightarrow>
           Q (Inl e) (GetIk ((xi, yi, zi + z), qi) q (Inr r1) # mv r1 @
           GetIk ((xi, yi, zi), qi) (jangles r1) (Inr r2) # mv r2 @
           SetPosition g # Sleep 1 # GetIk ((xi, yi, zi + z), qi) (jangles r2) (Inr r3) # mv r3 @
           [GetIk ((xf, yf, zf + z), qf) (jangles r3) (Inl e)])"
    and "\<And>r1 r2 r3 r4 e. feasible q (Inr r1) \<Longrightarrow> feasible (jangles r1) (Inr r2) \<Longrightarrow>
           feasible (jangles r2) (Inr r3) \<Longrightarrow> feasible (jangles r3) (Inr r4) \<Longrightarrow>
           feasible (jangles r4) (Inl e) \<Longrightarrow>
           Q (Inl e) (GetIk ((xi, yi, zi + z), qi) q (Inr r1) # mv r1 @
           GetIk ((xi, yi, zi), qi) (jangles r1) (Inr r2) # mv r2 @
           SetPosition g # Sleep 1 # GetIk ((xi, yi, zi + z), qi) (jangles r2) (Inr r3) # mv r3 @
           GetIk ((xf, yf, zf + z), qf) (jangles r3) (Inr r4) # mv r4 @ [GetIk ((xf, yf, zf), qf) (jangles r4) (Inl e)])"
    and "\<And>r1 r2 r3 r4 r5 e. feasible q (Inr r1) \<Longrightarrow> feasible (jangles r1) (Inr r2) \<Longrightarrow>
           feasible (jangles r2) (Inr r3) \<Longrightarrow> feasible (jangles r3) (Inr r4) \<Longrightarrow>
           feasible (jangles r4) (Inr r5) \<Longrightarrow> feasible (jangles r5) (Inl e) \<Longrightarrow>
           Q (Inl e) (GetIk ((xi, yi, zi + z), qi) q (Inr r1) # mv r1 @
           GetIk ((xi, yi, zi), qi) (jangles r1) (Inr r2) # mv r2 @
           SetPosition g # Sleep 1 # GetIk ((xi, yi, zi + z), qi) (jangles r2) (Inr r3) # mv r3 @
           GetIk ((xf, yf, zf + z), qf) (jangles r3) (Inr r4) # mv r4 @
           GetIk ((xf, yf, zf), qf) (jangles r4) (Inr r5) # mv r5 @
           [GripperOpen, Sleep 1, GetIk ((xf, yf, zf + z), qf) (jangles r5) (Inl e)])"
    and "\<And>r1 r2 r3 r4 r5 r6. feasible q (Inr r1) \<Longrightarrow> feasible (jangles r1) (Inr r2) \<Longrightarrow>
           feasible (jangles r2) (Inr r3) \<Longrightarrow> feasible (jangles r3) (Inr r4) \<Longrightarrow>
           feasible (jangles r4) (Inr r5) \<Longrightarrow> feasible (jangles r5) (Inr r6) \<Longrightarrow>
           Q (Inr ()) (GetIk ((xi, yi, zi + z), qi) q (Inr r1) # mv r1 @
           GetIk ((xi, yi, zi), qi) (jangles r1) (Inr r2) # mv r2 @
           SetPosition g # Sleep 1 # GetIk ((xi, yi, zi + z), qi) (jangles r2) (Inr r3) # mv r3 @
           GetIk ((xf, yf, zf + z), qf) (jangles r3) (Inr r4) # mv r4 @
           GetIk ((xf, yf, zf), qf) (jangles r4) (Inr r5) # mv r5 @
           GripperOpen # Sleep 1 # GetIk ((xf, yf, zf + z), qf) (jangles r5) (Inr r6) # mv r6)"
  shows "sat (pick_place w ((xi, yi, zi), qi) ((xf, yf, zf), qf) g z q) Q"
  unfolding pick_place_def Let_def set_position_def gripper_open_def rospy_sleep_def fst_conv snd_conv
  apply (rule sat_step sat_move sat_emit_then sat_move_last | simp add: assms)+
  done

lemma pick_place_run:
  assumes "\<And>e. feasible q (Inl e) \<Longrightarrow> Q (Inl e) [GetIk ((xi, yi, zi + z), qi) q (Inl e)]"
    and "\<And>r1 e. feasible q (Inr r1) \<Longrightarrow> feasible (jangles r1) (Inl e) \<Longrightarrow>
           Q (Inl e) (GetIk ((xi, yi, zi + z), qi) q (Inr r1) # mv r1 @ [GetIk ((xi, yi, zi), qi) (jangles r1) (Inl e)])"
    and "\<And>r1 r2 e. feasible q (Inr r1) \<Longrightarrow> feasible (jangles r1) (Inr r2) \<Longrightarrow>
           feasible (jangles r2) (Inl e) \<Longrightarrow>
           Q (Inl e) (GetIk ((xi, yi, zi + z), qi) q (Inr r1) # mv r1 @
           GetIk ((xi, yi, zi), qi) (jangles r1) (Inr r2) # mv r2 @
           [SetPosition g, Sleep 1, GetIk ((xi, yi, zi + z), qi) (jangles r2) (Inl e)])"
    and "\<And>r1 r2 r3 e. feasible q (Inr r1) \<Longrightarrow> feasible (jangles r1) (Inr r2) \<Longrightarrow>
           feasible (jangles r2) (Inr r3) \<Longrightarrow> feasible (jangles r3) (Inl e) \<Longrightarrow>
           Q (Inl e) (GetIk ((xi, yi, zi + z), qi) q (Inr r1) # mv r1 @
           GetIk ((xi, yi, zi), qi) (jangles r1) (Inr r2) # mv r2 @
           SetPosition g # Sleep 1 # GetIk ((xi, yi, zi + z), qi) (jangles r2) (Inr r3) # mv r3 @
           [GetIk ((xf, yf, zf + z), qf) (jangles r3) (Inl e)])"
    and "\<And>r1 r2 r3 r4 e. feasible q (Inr r1) \<Longrightarrow> feasible (jangles r1) (Inr r2) \<Longrightarrow>
           feasible (jangles r2) (Inr r3) \<Longrightarrow> feasible (jangles r3) (Inr r4) \<Longrightarrow>
           feasible (jangles r4) (Inl e) \<Longrightarrow>
           Q (Inl e) (GetIk ((xi, yi, zi + z), qi) q (Inr r1) # mv r1 @
           GetIk ((xi, yi, zi), qi) (jangles r1) (Inr r2) # mv r2 @
           SetPosition g # Sleep 1 # GetIk ((xi, yi, zi + z), qi) (jangles r2) (Inr r3) # mv r3 @
           GetIk ((xf, yf, zf + z), qf) (jangles r3) (Inr r4) # mv r4 @ [GetIk ((xf, yf, zf), qf) (jangles r4) (Inl e)])"
    and "\<And>r1 r2 r3 r4 r5 e. feasible q (Inr r1) \<Longrightarrow> feasible (jangles r1) (Inr r2) \<Longrightarrow>
           feasible (jangles r2) (Inr r3) \<Longrightarrow> feasible (jangles r3) (Inr r4) \<Longrightarrow>
           feasible (jangles r4) (Inr r5) \<Longrightarrow> feasible (jangles r5) (Inl e) \<Longrightarrow>
           Q (Inl e) (GetIk ((xi, yi, zi + z), qi) q (Inr r1) # mv r1 @
           GetIk ((xi, yi, zi), qi) (jangles r1) (Inr r2) # mv r2 @
           SetPosition g # Sleep 1 # GetIk ((xi, yi, zi + z), qi) (jangles r2) (Inr r3) # mv r3 @
           GetIk ((xf, yf, zf + z), qf) (jangles r3) (Inr r4) # mv r4 @
           GetIk ((xf, yf, zf), qf) (jangles r4) (Inr r5) # mv r5 @
           [GripperOpen, Sleep 1, GetIk ((xf, yf, zf + z), qf) (jangles r5) (Inl e)])"
    and "\<And>r1 r2 r3 r4 r5 r6. feasible q (Inr r1) \<Longrightarrow> feasible (jangles r1) (Inr r2) \<Longrightarrow>
           feasible (jangles r2) (Inr r3) \<Longrightarrow> feasible (jangles r3) (Inr r4) \<Longrightarrow>
           feasible (jangles r4) (Inr r5) \<Longrightarrow> feasible (jangles r5) (Inr r6) \<Longrightarrow>
           Q (Inr ()) (GetIk ((xi, yi, zi + z), qi) q (Inr r1) # mv r1 @
           GetIk ((xi, yi, zi), qi) (jangles r1) (Inr r2) # mv r2 @
           SetPosition g # Sleep 1 # GetIk ((xi, yi, zi + z), qi) (jangles r2) (Inr r3) # mv r3 @
           GetIk ((xf, yf, zf + z), qf) (jangles r3) (Inr r4) # mv r4 @
           GetIk ((xf, yf, zf), qf) (jangles r4) (Inr r5) # mv r5 @
           GripperOpen # Sleep 1 # GetIk ((xf, yf, zf + z), qf) (jangles r5) (Inr r6) # mv r6)"
  shows "\<exists>t. snd (pick_place w ((xi, yi, zi), qi) ((xf, yf, zf), qf) g z q h) = h @ t \<and>
            Q (fst (pick_place w ((xi, yi, zi), qi) ((xf, yf, zf), qf) g z q h)) (commands t)"
proof -
  have "sat (pick_place w ((xi, yi, zi), qi) ((xf, yf, zf), qf) g z q) Q"
    by (rule pick_place_sat) (rule assms; assumption)+
  then show ?thesis unfolding sat_def by (rule spec)
qed

lemma q_neutral_complete: "list_all (\<lambda>n. q_neutral n \<noteq> None) joint_names"
  by (simp add: q_neutral_def joint_names_def del: not_None_eq)

lemma q_ok_complete: "list_all (\<lambda>n. q_ok n \<noteq> None) joint_names"
  by (simp add: q_ok_def dict_zip_def joint_names_def del: not_None_eq)

lemma sat_call_det:
  assumes "\<And>h. fst (get_ik w p q h) = out" and "Q out [GetIk p q out]"
  shows "sat (call_get_ik w p q) Q"
  unfolding sat_def
proof
  fix h
  obtain d where d: "snd (get_ik w p q h) = h @ d" "commands d = []"
    using get_ik_events by blast
  have "call_get_ik w p q h = (out, h @ d @ [GetIk p q out])"
    using assms(1)[of h] d(1) by (cases "get_ik w p q h") (simp add: call_get_ik_def)
  with d(2) assms(2)
  show "\<exists>t. snd (call_get_ik w p q h) = h @ t \<and> Q (fst (call_get_ik w p q h)) (commands t)"
    by (intro exI[of _ "d @ [GetIk p q out]"]) simp
qed

lemma sat_step_returns:
  assumes "\<And>h. fst (get_ik w p q h) = Inr res"
      and "sat (f res) (\<lambda>r c. Q r (GetIk p q (Inr res) # c))"
  shows "sat (andthen (call_get_ik w p q) f) Q"
  by (rule sat_andthen, rule sat_call_det, rule assms(1)) (simp add: assms(2))

lemma sat_step_raises:
  assumes "\<And>h. fst (get_ik w p q h) = Inl e"
      and "Q (Inl e) [GetIk p q (Inl e)]"
  shows "sat (andthen (call_get_ik w p q) f) Q"
  by (rule sat_andthen, rule sat_call_det, rule assms(1)) (simp add: assms(2))

lemma sat_run:
  assumes "sat m (\<lambda>r c. r = r0 \<and> c = c0)"
  shows "fst (m []) = r0 \<and> commands (snd (m [])) = c0"
  using assms unfolding sat_def by (auto dest: spec[of _ "[]"])

lemma get_ik_ok:
  assumes "list_all (\<lambda>n. q n \<noteq> None) joint_names"
  shows "fst (get_ik w_ok p q h) = Inr r_ok"
  unfolding get_ik_def Let_def
  by (simp add: getitems_total[OF assms] prog_defs w_ok_def JointResult_new_def r_ok_def q_ok_def)

lemma get_ik_down:
  assumes "list_all (\<lambda>n. q n \<noteq> None) joint_names"
  shows "fst (get_ik w_down p q h) = Inr JointResult_new"
  unfolding get_ik_def Let_def
  by (simp add: getitems_total[OF assms] prog_defs w_down_def w_ok_def)

lemma get_ik_empty_seed: "fst (get_ik w p Map.empty h) = Inl (KeyError ''right_j0'')"
  by (simp add: get_ik_no_j0)

lemma r_ok_complete: "list_all (\<lambda>n. jangles r_ok n \<noteq> None) joint_names"
  using q_ok_complete by (simp add: r_ok_def del: not_None_eq)

lemmas run_defs = pick_place_def Let_def set_position_def gripper_open_def rospy_sleep_def
  fst_conv snd_conv

lemma run_ok:
  "fst (pick_place w_ok ((0.6, 0.5, 0.03), (0, 0, 1, 0)) ((0.6, -0.5, 0.02), (0, 0, 1, 0))
          0.7 0.2 q_neutral []) = Inr () \<and>
   commands (snd (pick_place w_ok ((0.6, 0.5, 0.03), (0, 0, 1, 0))
          ((0.6, -0.5, 0.02), (0, 0, 1, 0)) 0.7 0.2 q_neutral [])) =
     [GetIk ((0.6, 0.5, 0.23), (0, 0, 1, 0)) q_neutral (Inr r_ok), MoveToJointPositions q_ok,
      GetIk ((0.6, 0.5, 0.03), (0, 0, 1, 0)) q_ok (Inr r_ok), MoveToJointPositions q_ok,
      SetPosition 0.7, Sleep 1,
      GetIk ((0.6, 0.5, 0.23), (0, 0, 1, 0)) q_ok (Inr r_ok), MoveToJointPositions q_ok,
      GetIk ((0.6, -0.5, 0.22), (0, 0, 1, 0)) q_ok (Inr r_ok), MoveToJointPositions q_ok,
      GetIk ((0.6, -0.5, 0.02), (0, 0, 1, 0)) q_ok (Inr r_ok), MoveToJointPositions q_ok,
      GripperOpen, Sleep 1,
      GetIk ((0.6, -0.5, 0.22), (0, 0, 1, 0)) q_ok (Inr r_ok), MoveToJointPositions q_ok]"
  apply (rule sat_run)
  unfolding run_defs
  apply (rule sat_step_returns, rule get_ik_ok, rule q_neutral_complete)
  apply (rule sat_move sat_emit_then sat_move_last
      | (rule sat_step_returns, rule get_ik_ok, rule r_ok_complete)
      | simp add: mv_def r_ok_def)+
  done

lemma run_down:
  "fst (pick_place w_down ((0.6, 0.5, 0.03), (0, 0, 1, 0)) ((0.6, -0.5, 0.02), (0, 0, 1, 0))
          0.7 0.2 q_neutral []) = Inl (KeyError ''right_j0'') \<and>
   commands (snd (pick_place w_down ((0.6, 0.5, 0.03), (0, 0, 1, 0))
          ((0.6, -0.5, 0.02), (0, 0, 1, 0)) 0.7 0.2 q_neutral [])) =
     [GetIk ((0.6, 0.5, 0.23), (0, 0, 1, 0)) q_neutral (Inr JointResult_new),
      GetIk ((0.6, 0.5, 0.03), (0, 0, 1, 0)) Map.empty (Inl (KeyError ''right_j0''))]"
  apply (rule sat_run)
  unfolding run_defs
  apply (rule sat_step_returns, rule get_ik_down, rule q_neutral_complete)
  apply (rule sat_move)
  apply (simp add: JointResult_new_def)
  apply (rule sat_step_raises, rule get_ik_empty_seed)
  apply (simp add: mv_def)
  done

lemma get_ik_unfold:
  assumes "list_all (\<lambda>n. q n \<noteq> None) joint_names"
  shows "get_ik w p q h =
    (case wait_for_service w h IKService 5 of
       Some e \<Rightarrow>
         if e = ServiceException \<or> e = ROSException
         then (Inr JointResult_new, h @ [WaitForService IKService 5, LogErr ''Service call failed: %s''])
         else (Inl e, h @ [WaitForService IKService 5])
     | None \<Rightarrow>
        (case ik_client w (h @ [WaitForService IKService 5]) (ik_request_for p q) of
           Inl e \<Rightarrow>
             if e = ServiceException \<or> e = ROSException
             then (Inr JointResult_new,
                   h @ [WaitForService IKService 5, CallService IKService (ik_request_for p q),
                        LogErr ''Service call failed: %s''])
             else (Inl e, h @ [WaitForService IKService 5, CallService IKService (ik_request_for p q)])
         | Inr resp \<Rightarrow>
            (case result_type resp of
               [] \<Rightarrow> (Inl IndexError,
                      h @ [WaitForService IKService 5, CallService IKService (ik_request_for p q)])
             | code # _ \<Rightarrow>
                if code > 0 then
                  (case joints resp of
                     [] \<Rightarrow> (Inl IndexError,
                            h @ [WaitForService IKService 5, CallService IKService (ik_request_for p q),
                                 LogInfo ''Valid joints from seed: %s''])
                   | sol # _ \<Rightarrow>
                       (Inr \<lparr>jangles = dict_zip (name sol) (position sol), valid = True\<rparr>,
                        h @ [WaitForService IKService 5, CallService IKService (ik_request_for p q),
                             LogInfo ''Valid joints from seed: %s'', LogInfo ''IK Joint Solution: %s'']))
                else (Inr JointResult_new,
                      h @ [WaitForService IKService 5, CallService IKService (ik_request_for p q),
                           LogErr ''INVALID POSE - No valid joint solution found.'',
                           LogErr ''Result Error %d'']))))"
  unfolding get_ik_def Let_def
  by (simp add: getitems_total[OF assms] prog_defs IKService_def ik_request_for_def JointResult_new_def
      split: option.splits sum.splits list.splits)

lemma feasible_valid:
  assumes "feasible q (Inr r)" and "feasible (jangles r) (Inr r')"
  shows "valid r"
proof (rule ccontr)
  assume "\<not> valid r"
  with assms(1) have "r = JointResult_new" by (simp add: feasible_def)
  with assms(2) show False
    by (simp add: feasible_def JointResult_new_def joint_names_def)
qed

lemma feasible_invalid_raises:
  assumes "feasible q (Inr r)" and "feasible (jangles r) (Inl e)" and "\<not> valid r"
  shows "e = KeyError ''right_j0'' \<and> jangles r = Map.empty \<and> mv r = []"
proof -
  from assms(1,3) have "r = JointResult_new" by (simp add: feasible_def)
  with assms(2,3) show ?thesis
    by (simp add: feasible_def JointResult_new_def mv_def)
qed

lemma quaternion_ex: "\<exists>a b c d. (q :: quaternion) = (a, b, c, d)"
  by (cases q) auto

lemma diag_not_action: "is_diag e \<Longrightarrow> \<not> is_gripper_action e \<and> \<not> is_arm_motion e"
  by (cases e) simp_all

lemma gripper_actions_commands [simp]:
  "filter is_gripper_action (commands t) = filter is_gripper_action t"
  by (induction t) (auto simp: diag_not_action)

lemma actions_commands [simp]: "actions (commands t) = actions t"
  unfolding actions_def by (induction t) (auto simp: diag_not_action)

lemma returned_commands [simp]: "returned k (commands t) = returned k t"
  by (simp add: returned_def)

lemma arm_motion_commands: "filter is_arm_motion (commands t) = filter is_arm_motion t"
  by (induction t) (auto simp: diag_not_action)

lemma gripper_actions_mv [simp]: "filter is_gripper_action (mv r) = []"
  by (simp add: mv_def)

lemma actions_simps [simp]:
  "actions [] = []"
  "actions (e # es) = (if is_arm_motion e \<or> is_gripper_action e then e # actions es else actions es)"
  "actions (a @ b) = actions a @ actions b"
  by (simp_all add: actions_def)

lemma get_ik_no_grasp_low:
  assumes "list_all (\<lambda>n. q n \<noteq> None) joint_names"
  shows "fst (get_ik w_no_grasp ((x, y, 0.03), ori) q h) = Inr JointResult_new"
  by (simp add: get_ik_unfold[OF assms] w_no_grasp_def w_ok_def ik_request_for_def)

lemma get_ik_no_grasp_high:
  assumes "list_all (\<lambda>n. q n \<noteq> None) joint_names" and "z \<noteq> 0.03"
  shows "fst (get_ik w_no_grasp ((x, y, z), ori) q h) = Inr r_ok"
  using assms(2)
  by (simp add: get_ik_unfold[OF assms(1)] w_no_grasp_def w_ok_def ik_request_for_def
      r_ok_def q_ok_def)

lemma run_no_grasp:
  "fst (pick_place w_no_grasp ((0.6, 0.5, 0.03), (0, 0, 1, 0)) ((0.6, -0.5, 0.02), (0, 0, 1, 0))
          0.7 0.2 q_neutral []) = Inl (KeyError ''right_j0'') \<and>
   commands (snd (pick_place w_no_grasp ((0.6, 0.5, 0.03), (0, 0, 1, 0))
          ((0.6, -0.5, 0.02), (0, 0, 1, 0)) 0.7 0.2 q_neutral [])) =
     [GetIk ((0.6, 0.5, 0.23), (0, 0, 1, 0)) q_neutral (Inr r_ok), MoveToJointPositions q_ok,
      GetIk ((0.6, 0.5, 0.03), (0, 0, 1, 0)) q_ok (Inr JointResult_new),
      SetPosition 0.7, Sleep 1,
      GetIk ((0.6, 0.5, 0.23), (0, 0, 1, 0)) Map.empty (Inl (KeyError ''right_j0''))]"
  apply (rule sat_run)
  unfolding run_defs
  apply (rule sat_step_returns, rule get_ik_no_grasp_high, rule q_neutral_complete, simp)
  apply (rule sat_move)
  apply (rule sat_step_returns, rule get_ik_no_grasp_low, rule r_ok_complete)
  apply (rule sat_move)
  apply (rule sat_emit_then, simp)+
  apply (simp add: JointResult_new_def)
  apply (rule sat_step_raises, rule get_ik_empty_seed)
  apply (simp add: mv_def r_ok_def)
  done

lemma actions_mv [simp]: "actions (mv r) = mv r"
  by (simp add: mv_def)

lemma all_valid_commands [simp]: "all_valid (commands t) = all_valid t"
  by (simp add: all_valid_def)

lemma feasible_seed: "feasible q (Inr r) \<Longrightarrow> q ''right_j0'' \<noteq> None"
  by (simp add: feasible_def joint_names_def)

lemma extends_andthen:
  assumes "extends m" and "\<And>a. extends (f a)"
  shows "extends (andthen m f)"
  unfolding extends_def
proof
  fix h
  from assms(1) obtain t where t: "snd (m h) = h @ t" unfolding extends_def by blast
  show "\<exists>t. snd (andthen m f h) = h @ t"
  proof (cases "fst (m h)")
    case (Inl e)
    with t show ?thesis by (cases "m h") (simp add: andthen_def)
  next
    case (Inr a)
    from assms(2)[of a] obtain t' where "snd (f a (h @ t)) = (h @ t) @ t'"
      unfolding extends_def by blast
    with Inr t show ?thesis by (cases "m h") (simp add: andthen_def)
  qed
qed

lemma extends_emit: "extends (emit e)"
  by (simp add: extends_def emit_def)

lemma extends_pick_place: "extends (pick_place w p_i p_f g z q)"
proof -
  obtain xi yi zi qi xf yf zf qf where "p_i = ((xi, yi, zi), qi)" "p_f = ((xf, yf, zf), qf)"
    by (metis prod.exhaust)
  moreover have "sat (pick_place w ((xi, yi, zi), qi) ((xf, yf, zf), qf) g z q) (\<lambda>r c. True)"
    by (rule pick_place_sat) simp_all
  ultimately show ?thesis by (auto simp: sat_def extends_def)
qed

lemma starts_Nil: "extends m \<Longrightarrow> starts [] m"
  by (simp add: starts_def extends_def)

lemma starts_step:
  assumes "\<And>h. m h = (Inr (g h), h @ [e])" and "\<And>h. starts es (f (g h))"
  shows "starts (e # es) (andthen m f)"
  unfolding starts_def
proof
  fix h
  from assms(2)[of h] obtain t where "snd (f (g h) (h @ [e])) = (h @ [e]) @ es @ t"
    unfolding starts_def by blast
  with assms(1)[of h] show "\<exists>t. snd (andthen m f h) = h @ (e # es) @ t"
    by (simp add: andthen_def)
qed

lemma starts_silent:
  assumes "\<And>h. m h = (Inr (g h), h)" and "\<And>h. starts es (f (g h))"
  shows "starts es (andthen m f)"
  unfolding starts_def
proof
  fix h
  from assms(2)[of h] obtain t where "snd (f (g h) h) = h @ es @ t"
    unfolding starts_def by blast
  with assms(1)[of h] show "\<exists>t. snd (andthen m f h) = h @ es @ t"
    by (simp add: andthen_def)
qed

text \<open>
  With a gripper that is found and calibrated, \<open>main\<close> goes on to the neutral pose and
  opens the gripper before the first cup.
\<close>

lemma main_with_gripper:
  assumes "gripper_new w = None" and "gripper_calibrate w = None"
  shows "\<exists>t. snd (main w h) =
     h @ [InitNode ''MoveCartesian'', Calibrate,
          DisplayImage (get_pkg_dir w ''sawyer_utec'' @ ''/images/up1.jpg''),
          MoveToNeutral, GripperOpen] @ t"
proof -
  have "starts [InitNode ''MoveCartesian'', Calibrate,
          DisplayImage (get_pkg_dir w ''sawyer_utec'' @ ''/images/'' @ ''up1.jpg''),
          MoveToNeutral, GripperOpen] (main w)"
    unfolding main_def Let_def
  proof (rule starts_step[where g = "\<lambda>_. ()"], goal_cases)
    case 1
    show ?case by (simp add: emit_def)
  next
    case 2
    show ?case
    proof (rule starts_step[where g = "\<lambda>_. Some (MAX_POSITION w / 5)"], goal_cases)
      case 1
      show ?case by (simp add: assms prog_defs new_gripper_def calibrate_def)
    next
      case 2
      show ?case
        unfolding option.case
        apply (rule starts_step[where g = "\<lambda>_. ()"], simp add: display_image_def emit_def)
        apply (rule starts_step[where g = "\<lambda>_. ()"], simp add: move_to_neutral_def emit_def)
        apply (rule starts_silent[where g = "joint_angles w"], simp add: limb_joint_angles_def)
        apply (rule starts_step[where g = "\<lambda>_. ()"], simp add: gripper_open_def emit_def)
        apply (rule starts_Nil)
        apply (intro extends_andthen extends_pick_place)
          apply (simp_all add: extends_emit move_to_neutral_def display_image_def)
        apply (simp add: extends_def limb_joint_angles_def)
        done
    qed
  qed
  then show ?thesis by (simp add: starts_def)
qed

text \<open>
  The calls of \<open>get_ik\<close> in the three runs of the demo task.
\<close>

lemma solves_run_ok:
  "solves (snd (pick_place w_ok ((0.6, 0.5, 0.03), (0, 0, 1, 0))
          ((0.6, -0.5, 0.02), (0, 0, 1, 0)) 0.7 0.2 q_neutral [])) =
     [(((0.6, 0.5, 0.23), (0, 0, 1, 0)), q_neutral, Inr r_ok),
      (((0.6, 0.5, 0.03), (0, 0, 1, 0)), q_ok, Inr r_ok),
      (((0.6, 0.5, 0.23), (0, 0, 1, 0)), q_ok, Inr r_ok),
      (((0.6, -0.5, 0.22), (0, 0, 1, 0)), q_ok, Inr r_ok),
      (((0.6, -0.5, 0.02), (0, 0, 1, 0)), q_ok, Inr r_ok),
      (((0.6, -0.5, 0.22), (0, 0, 1, 0)), q_ok, Inr r_ok)]"
proof -
  let ?run = "pick_place w_ok ((0.6, 0.5, 0.03), (0, 0, 1, 0))
          ((0.6, -0.5, 0.02), (0, 0, 1, 0)) 0.7 0.2 q_neutral []"
  have "solves (commands (snd ?run)) =
     [(((0.6, 0.5, 0.23), (0, 0, 1, 0)), q_neutral, Inr r_ok),
      (((0.6, 0.5, 0.03), (0, 0, 1, 0)), q_ok, Inr r_ok),
      (((0.6, 0.5, 0.23), (0, 0, 1, 0)), q_ok, Inr r_ok),
      (((0.6, -0.5, 0.22), (0, 0, 1, 0)), q_ok, Inr r_ok),
      (((0.6, -0.5, 0.02), (0, 0, 1, 0)), q_ok, Inr r_ok),
      (((0.6, -0.5, 0.22), (0, 0, 1, 0)), q_ok, Inr r_ok)]"
    using run_ok by (simp del: solves_commands)
  then show ?thesis by (simp only: solves_commands)
qed

lemma solves_run_down:
  "solves (snd (pick_place w_down ((0.6, 0.5, 0.03), (0, 0, 1, 0))
          ((0.6, -0.5, 0.02), (0, 0, 1, 0)) 0.7 0.2 q_neutral [])) =
     [(((0.6, 0.5, 0.23), (0, 0, 1, 0)), q_neutral, Inr JointResult_new),
      (((0.6, 0.5, 0.03), (0, 0, 1, 0)), Map.empty, Inl (KeyError ''right_j0''))]"
proof -
  let ?run = "pick_place w_down ((0.6, 0.5, 0.03), (0, 0, 1, 0))
          ((0.6, -0.5, 0.02), (0, 0, 1, 0)) 0.7 0.2 q_neutral []"
  have "solves (commands (snd ?run)) =
     [(((0.6, 0.5, 0.23), (0, 0, 1, 0)), q_neutral, Inr JointResult_new),
      (((0.6, 0.5, 0.03), (0, 0, 1, 0)), Map.empty, Inl (KeyError ''right_j0''))]"
    using run_down by (simp del: solves_commands)
  then show ?thesis by (simp only: solves_commands)
qed

lemma solves_run_no_grasp:
  "solves (snd (pick_place w_no_grasp ((0.6, 0.5, 0.03), (0, 0, 1, 0))
          ((0.6, -0.5, 0.02), (0, 0, 1, 0)) 0.7 0.2 q_neutral [])) =
     [(((0.6, 0.5, 0.23), (0, 0, 1, 0)), q_neutral, Inr r_ok),
      (((0.6, 0.5, 0.03), (0, 0, 1, 0)), q_ok, Inr JointResult_new),
      (((0.6, 0.5, 0.23), (0, 0, 1, 0)), Map.empty, Inl (KeyError ''right_j0''))]"
proof -
  let ?run = "pick_place w_no_grasp ((0.6, 0.5, 0.03), (0, 0, 1, 0))
          ((0.6, -0.5, 0.02), (0, 0, 1, 0)) 0.7 0.2 q_neutral []"
  have "solves (commands (snd ?run)) =
     [(((0.6, 0.5, 0.23), (0, 0, 1, 0)), q_neutral, Inr r_ok),
      (((0.6, 0.5, 0.03), (0, 0, 1, 0)), q_ok, Inr JointResult_new),
      (((0.6, 0.5, 0.23), (0, 0, 1, 0)), Map.empty, Inl (KeyError ''right_j0''))]"
    using run_no_grasp by (simp del: solves_commands)
  then show ?thesis by (simp only: solves_commands)
qed

section \<open>The claims\<close>

text \<open>
  C1. What the program does where the claim asks for the last valid seed. In every run of
  \<open>pick_place\<close>, an arm motion is commanded only right after a call of \<open>get_ik\<close> that
  returned a valid result, to the \<open>jangles\<close> of that result: a result that is not valid
  moves nothing. But when one of the first five calls returned a result that is not valid,
  the next call is made with the empty dictionary as seed, and not with the seed \<open>s\<close> that
  was in effect, which held \<^verbatim>\<open>'right_j0'\<close>.
\<close>

theorem invalid_solve_empties_seed:
  "\<exists>t. snd (pick_place w ((xi, yi, zi), qi) ((xf, yf, zf), qf) g z qinit h) = h @ t \<and>
     (\<forall>A j B. commands t = A @ MoveToJointPositions j # B \<longrightarrow>
        (\<exists>A' p s res. A = A' @ [GetIk p s (Inr res)] \<and> valid res \<and> j = jangles res)) \<and>
     (\<forall>i p s res. i < 5 \<and> i < length (solves t) \<and> solves t ! i = (p, s, Inr res) \<and> \<not> valid res
        \<longrightarrow> s ''right_j0'' \<noteq> None \<and> Suc i < length (solves t) \<and>
            fst (snd (solves t ! Suc i)) = Map.empty)"
proof -
  have "\<exists>t. snd (pick_place w ((xi, yi, zi), qi) ((xf, yf, zf), qf) g z qinit h) = h @ t \<and>
     (\<forall>A j B. commands t = A @ MoveToJointPositions j # B \<longrightarrow>
        (\<exists>A' p s res. A = A' @ [GetIk p s (Inr res)] \<and> valid res \<and> j = jangles res)) \<and>
     (\<forall>i p s res. i < 5 \<and> i < length (solves (commands t)) \<and>
          solves (commands t) ! i = (p, s, Inr res) \<and> \<not> valid res
        \<longrightarrow> s ''right_j0'' \<noteq> None \<and> Suc i < length (solves (commands t)) \<and>
            fst (snd (solves (commands t) ! Suc i)) = Map.empty)"
  proof (rule pick_place_run, goal_cases)
    case (1 e)
    show ?case by (auto simp: Cons_eq_append_conv nth_Cons' split: if_splits)
  next
    case (2 r1 e)
    then show ?case
      using feasible_invalid_raises[of qinit r1 e] feasible_seed[of qinit r1]
      by (cases "valid r1")
         (auto simp: Cons_eq_append_conv quaternion_ex mv_def nth_Cons' split: if_splits)
  next
    case (3 r1 r2 e)
    then have v: "valid r1" using feasible_valid by blast
    from 3 show ?case
      using feasible_invalid_raises[of "jangles r1" r2 e] feasible_seed[of "jangles r1" r2] v
      by (cases "valid r2")
         (auto simp: Cons_eq_append_conv quaternion_ex mv_def nth_Cons' split: if_splits)
  next
    case (4 r1 r2 r3 e)
    then have v: "valid r1" "valid r2" using feasible_valid by blast+
    from 4 show ?case
      using feasible_invalid_raises[of "jangles r2" r3 e] feasible_seed[of "jangles r2" r3] v
      by (cases "valid r3")
         (auto simp: Cons_eq_append_conv quaternion_ex mv_def nth_Cons' split: if_splits)
  next
    case (5 r1 r2 r3 r4 e)
    then have v: "valid r1" "valid r2" "valid r3" using feasible_valid by blast+
    from 5 show ?case
      using feasible_invalid_raises[of "jangles r3" r4 e] feasible_seed[of "jangles r3" r4] v
      by (cases "valid r4")
         (auto simp: Cons_eq_append_conv quaternion_ex mv_def nth_Cons' split: if_splits)
  next
    case (6 r1 r2 r3 r4 r5 e)
    then have v: "valid r1" "valid r2" "valid r3" "valid r4" using feasible_valid by blast+
    from 6 show ?case
      using feasible_invalid_raises[of "jangles r4" r5 e] feasible_seed[of "jangles r4" r5] v
      by (cases "valid r5")
         (auto simp: Cons_eq_append_conv quaternion_ex mv_def nth_Cons' split: if_splits)
  next
    case (7 r1 r2 r3 r4 r5 r6)
    then have v: "valid r1" "valid r2" "valid r3" "valid r4" "valid r5"
      using feasible_valid by blast+
    then show ?case
      by (cases "valid r6")
         (auto simp: Cons_eq_append_conv quaternion_ex mv_def nth_Cons' split: if_splits)
  qed
  then show ?thesis by (simp only: solves_commands)
qed

text \<open>
  With the service node down the first call returns the fresh result, no arm motion is
  commanded, and the second call is seeded with the empty dictionary.
\<close>

theorem invalid_solve_empties_seed_witness:
  "solves (snd (pick_place w_down ((0.6, 0.5, 0.03), (0, 0, 1, 0))
          ((0.6, -0.5, 0.02), (0, 0, 1, 0)) 0.7 0.2 q_neutral [])) ! 0 =
     (((0.6, 0.5, 0.23), (0, 0, 1, 0)), q_neutral, Inr JointResult_new) \<and>
   \<not> valid JointResult_new \<and>
   q_neutral ''right_j0'' \<noteq> None \<and>
   Suc 0 < length (solves (snd (pick_place w_down ((0.6, 0.5, 0.03), (0, 0, 1, 0))
          ((0.6, -0.5, 0.02), (0, 0, 1, 0)) 0.7 0.2 q_neutral []))) \<and>
   fst (snd (solves (snd (pick_place w_down ((0.6, 0.5, 0.03), (0, 0, 1, 0))
          ((0.6, -0.5, 0.02), (0, 0, 1, 0)) 0.7 0.2 q_neutral [])) ! Suc 0)) = Map.empty \<and>
   filter is_arm_motion (snd (pick_place w_down ((0.6, 0.5, 0.03), (0, 0, 1, 0))
          ((0.6, -0.5, 0.02), (0, 0, 1, 0)) 0.7 0.2 q_neutral [])) = []"
proof -
  let ?run = "pick_place w_down ((0.6, 0.5, 0.03), (0, 0, 1, 0))
          ((0.6, -0.5, 0.02), (0, 0, 1, 0)) 0.7 0.2 q_neutral []"
  have "solves (commands (snd ?run)) =
     [(((0.6, 0.5, 0.23), (0, 0, 1, 0)), q_neutral, Inr JointResult_new),
      (((0.6, 0.5, 0.03), (0, 0, 1, 0)), Map.empty, Inl (KeyError ''right_j0''))]"
    using run_down by (simp del: solves_commands)
  then have s: "solves (snd ?run) =
     [(((0.6, 0.5, 0.23), (0, 0, 1, 0)), q_neutral, Inr JointResult_new),
      (((0.6, 0.5, 0.03), (0, 0, 1, 0)), Map.empty, Inl (KeyError ''right_j0''))]"
    by (simp only: solves_commands)
  then have a: "solves (snd ?run) ! 0 =
     (((0.6, 0.5, 0.23), (0, 0, 1, 0)), q_neutral, Inr JointResult_new)"
    and l: "0 < length (solves (snd ?run))"
    by simp_all
  have "filter is_arm_motion (commands (snd ?run)) = []"
    using run_down by simp
  then have m: "filter is_arm_motion (snd ?run) = []"
    by (simp only: arm_motion_commands)
  have v: "\<not> valid JointResult_new" by (simp add: JointResult_new_def)
  from invalid_solve_empties_seed[of w_down "0.6" "0.5" "0.03" "(0, 0, 1, 0)" "0.6" "-0.5" "0.02"
      "(0, 0, 1, 0)" "0.7" "0.2" q_neutral "[]"]
  obtain t where t: "snd ?run = [] @ t"
    and imp: "\<forall>i p s res. i < 5 \<and> i < length (solves t) \<and> solves t ! i = (p, s, Inr res) \<and>
        \<not> valid res \<longrightarrow> s ''right_j0'' \<noteq> None \<and> Suc i < length (solves t) \<and>
            fst (snd (solves t ! Suc i)) = Map.empty"
    by (elim exE conjE) (rule that)
  from t have "t = snd ?run" by simp
  moreover have "(0::nat) < 5" by simp
  ultimately have "q_neutral ''right_j0'' \<noteq> None \<and> Suc 0 < length (solves (snd ?run)) \<and>
            fst (snd (solves (snd ?run) ! Suc 0)) = Map.empty"
    using imp a l v by blast
  with a v m show ?thesis by (intro conjI) simp_all
qed

text \<open>
  C2. What the program does where the claim asks for a run to completion. In every run of
  \<open>pick_place\<close>, when one of the first five calls of \<open>get_ik\<close> returned a result that is not
  valid, \<open>pick_place\<close> does not return: it raises \<^verbatim>\<open>KeyError('right_j0')\<close>.
\<close>

theorem invalid_solve_raises:
  "\<exists>t. snd (pick_place w ((xi, yi, zi), qi) ((xf, yf, zf), qf) g z qinit h) = h @ t \<and>
     (\<forall>i p s res. i < 5 \<and> i < length (solves t) \<and> solves t ! i = (p, s, Inr res) \<and> \<not> valid res
        \<longrightarrow> fst (pick_place w ((xi, yi, zi), qi) ((xf, yf, zf), qf) g z qinit h) =
              Inl (KeyError ''right_j0''))"
proof -
  have "\<exists>t. snd (pick_place w ((xi, yi, zi), qi) ((xf, yf, zf), qf) g z qinit h) = h @ t \<and>
     (\<forall>i p s res. i < 5 \<and> i < length (solves (commands t)) \<and>
          solves (commands t) ! i = (p, s, Inr res) \<and> \<not> valid res
        \<longrightarrow> fst (pick_place w ((xi, yi, zi), qi) ((xf, yf, zf), qf) g z qinit h) =
              Inl (KeyError ''right_j0''))"
  proof (rule pick_place_run, goal_cases)
    case (1 e)
    show ?case by simp
  next
    case (2 r1 e)
    then show ?case
      using feasible_invalid_raises[of qinit r1 e]
      by (auto simp: nth_Cons' split: if_splits)
  next
    case (3 r1 r2 e)
    then have v: "valid r1" using feasible_valid by blast
    from 3 show ?case
      using feasible_invalid_raises[of "jangles r1" r2 e] v
      by (auto simp: nth_Cons' split: if_splits)
  next
    case (4 r1 r2 r3 e)
    then have v: "valid r1" "valid r2" using feasible_valid by blast+
    from 4 show ?case
      using feasible_invalid_raises[of "jangles r2" r3 e] v
      by (auto simp: nth_Cons' split: if_splits)
  next
    case (5 r1 r2 r3 r4 e)
    then have v: "valid r1" "valid r2" "valid r3" using feasible_valid by blast+
    from 5 show ?case
      using feasible_invalid_raises[of "jangles r3" r4 e] v
      by (auto simp: nth_Cons' split: if_splits)
  next
    case (6 r1 r2 r3 r4 r5 e)
    then have v: "valid r1" "valid r2" "valid r3" "valid r4" using feasible_valid by blast+
    from 6 show ?case
      using feasible_invalid_raises[of "jangles r4" r5 e] v
      by (auto simp: nth_Cons' split: if_splits)
  next
    case (7 r1 r2 r3 r4 r5 r6)
    then have v: "valid r1" "valid r2" "valid r3" "valid r4" "valid r5"
      using feasible_valid by blast+
    then show ?case
      by (auto simp: nth_Cons' split: if_splits)
  qed
  then show ?thesis by (simp only: solves_commands)
qed

text \<open>
  With the service node down the first call returns the fresh result and the run ends with
  the \<open>KeyError\<close>.
\<close>

theorem invalid_solve_raises_witness:
  "solves (snd (pick_place w_down ((0.6, 0.5, 0.03), (0, 0, 1, 0))
          ((0.6, -0.5, 0.02), (0, 0, 1, 0)) 0.7 0.2 q_neutral [])) ! 0 =
     (((0.6, 0.5, 0.23), (0, 0, 1, 0)), q_neutral, Inr JointResult_new) \<and>
   \<not> valid JointResult_new \<and>
   fst (pick_place w_down ((0.6, 0.5, 0.03), (0, 0, 1, 0)) ((0.6, -0.5, 0.02), (0, 0, 1, 0))
          0.7 0.2 q_neutral []) = Inl (KeyError ''right_j0'')"
proof -
  let ?run = "pick_place w_down ((0.6, 0.5, 0.03), (0, 0, 1, 0))
          ((0.6, -0.5, 0.02), (0, 0, 1, 0)) 0.7 0.2 q_neutral []"
  have "solves (commands (snd ?run)) =
     [(((0.6, 0.5, 0.23), (0, 0, 1, 0)), q_neutral, Inr JointResult_new),
      (((0.6, 0.5, 0.03), (0, 0, 1, 0)), Map.empty, Inl (KeyError ''right_j0''))]"
    using run_down by (simp del: solves_commands)
  then have s: "solves (snd ?run) =
     [(((0.6, 0.5, 0.23), (0, 0, 1, 0)), q_neutral, Inr JointResult_new),
      (((0.6, 0.5, 0.03), (0, 0, 1, 0)), Map.empty, Inl (KeyError ''right_j0''))]"
    by (simp only: solves_commands)
  then have a: "solves (snd ?run) ! 0 =
     (((0.6, 0.5, 0.23), (0, 0, 1, 0)), q_neutral, Inr JointResult_new)"
    and l: "0 < length (solves (snd ?run))"
    by simp_all
  have v: "\<not> valid JointResult_new" by (simp add: JointResult_new_def)
  from invalid_solve_raises[of w_down "0.6" "0.5" "0.03" "(0, 0, 1, 0)" "0.6" "-0.5" "0.02"
      "(0, 0, 1, 0)" "0.7" "0.2" q_neutral "[]"]
  obtain t where t: "snd ?run = [] @ t"
    and imp: "\<forall>i p s res. i < 5 \<and> i < length (solves t) \<and> solves t ! i = (p, s, Inr res) \<and>
        \<not> valid res \<longrightarrow> fst ?run = Inl (KeyError ''right_j0'')"
    by (elim exE conjE) (rule that)
  from t have "t = snd ?run" by simp
  moreover have "(0::nat) < 5" by simp
  ultimately have "fst ?run = Inl (KeyError ''right_j0'')"
    using imp a l v by blast
  with a v show ?thesis by (intro conjI)
qed

text \<open>
  C3. What the program does where the claim asks for exactly six waypoints. The six poses
  of the claim are the start position raised by the clearance, the start position, the
  start position raised again (all three with the start orientation), the end position
  raised, the end position and the end position raised again (all three with the end
  orientation). In every run of \<open>pick_place\<close> the poses handed to \<open>get_ik\<close> are, in order, a
  non-empty initial part of this list, and a run that returns hands over the six. But when
  one of the first five calls returned a result that is not valid, the run hands over the
  poses up to the one after that call and no more: the rest of the six is never reached.
\<close>

theorem pick_place_waypoints:
  "\<exists>t. snd (pick_place w ((xs, ys, zs), qs) ((xe, ye, ze), qe) g hc qinit h) = h @ t \<and>
       prefix (map fst (solves t))
         [((xs, ys, zs + hc), qs), ((xs, ys, zs), qs), ((xs, ys, zs + hc), qs),
          ((xe, ye, ze + hc), qe), ((xe, ye, ze), qe), ((xe, ye, ze + hc), qe)] \<and>
       solves t \<noteq> [] \<and>
       (fst (pick_place w ((xs, ys, zs), qs) ((xe, ye, ze), qe) g hc qinit h) = Inr () \<longrightarrow>
        map fst (solves t) =
         [((xs, ys, zs + hc), qs), ((xs, ys, zs), qs), ((xs, ys, zs + hc), qs),
          ((xe, ye, ze + hc), qe), ((xe, ye, ze), qe), ((xe, ye, ze + hc), qe)]) \<and>
       (\<forall>i p s res. i < 5 \<and> i < length (solves t) \<and> solves t ! i = (p, s, Inr res) \<and>
            \<not> valid res \<longrightarrow>
        map fst (solves t) = take (Suc (Suc i))
         [((xs, ys, zs + hc), qs), ((xs, ys, zs), qs), ((xs, ys, zs + hc), qs),
          ((xe, ye, ze + hc), qe), ((xe, ye, ze), qe), ((xe, ye, ze + hc), qe)])"
proof -
  have "\<exists>t. snd (pick_place w ((xs, ys, zs), qs) ((xe, ye, ze), qe) g hc qinit h) = h @ t \<and>
       prefix (map fst (solves (commands t)))
         [((xs, ys, zs + hc), qs), ((xs, ys, zs), qs), ((xs, ys, zs + hc), qs),
          ((xe, ye, ze + hc), qe), ((xe, ye, ze), qe), ((xe, ye, ze + hc), qe)] \<and>
       solves (commands t) \<noteq> [] \<and>
       (fst (pick_place w ((xs, ys, zs), qs) ((xe, ye, ze), qe) g hc qinit h) = Inr () \<longrightarrow>
        map fst (solves (commands t)) =
         [((xs, ys, zs + hc), qs), ((xs, ys, zs), qs), ((xs, ys, zs + hc), qs),
          ((xe, ye, ze + hc), qe), ((xe, ye, ze), qe), ((xe, ye, ze + hc), qe)]) \<and>
       (\<forall>i p s res. i < 5 \<and> i < length (solves (commands t)) \<and>
            solves (commands t) ! i = (p, s, Inr res) \<and> \<not> valid res \<longrightarrow>
        map fst (solves (commands t)) = take (Suc (Suc i))
         [((xs, ys, zs + hc), qs), ((xs, ys, zs), qs), ((xs, ys, zs + hc), qs),
          ((xe, ye, ze + hc), qe), ((xe, ye, ze), qe), ((xe, ye, ze + hc), qe)])"
  proof (rule pick_place_run, goal_cases)
    case (1 e)
    show ?case by (auto simp: less_Suc_eq eval_nat_numeral)
  next
    case (2 r1 e)
    show ?case by (auto simp: less_Suc_eq eval_nat_numeral)
  next
    case (3 r1 r2 e)
    then have v: "valid r1" using feasible_valid by blast
    then show ?case by (auto simp: less_Suc_eq eval_nat_numeral)
  next
    case (4 r1 r2 r3 e)
    then have v: "valid r1" "valid r2" using feasible_valid by blast+
    then show ?case by (auto simp: less_Suc_eq eval_nat_numeral)
  next
    case (5 r1 r2 r3 r4 e)
    then have v: "valid r1" "valid r2" "valid r3" using feasible_valid by blast+
    then show ?case by (auto simp: less_Suc_eq eval_nat_numeral)
  next
    case (6 r1 r2 r3 r4 r5 e)
    then have v: "valid r1" "valid r2" "valid r3" "valid r4" using feasible_valid by blast+
    then show ?case by (auto simp: less_Suc_eq eval_nat_numeral)
  next
    case (7 r1 r2 r3 r4 r5 r6)
    then have v: "valid r1" "valid r2" "valid r3" "valid r4" "valid r5"
      using feasible_valid by blast+
    then show ?case by (auto simp: less_Suc_eq eval_nat_numeral)
  qed
  then show ?thesis by (simp only: solves_commands)
qed

text \<open>
  With the service node down the first call returns a result that is not valid and only
  the first two of the six poses are handed over; in the world whose service answers every
  request the run returns, with the six.
\<close>

theorem pick_place_waypoints_witness:
  "solves (snd (pick_place w_down ((0.6, 0.5, 0.03), (0, 0, 1, 0))
          ((0.6, -0.5, 0.02), (0, 0, 1, 0)) 0.7 0.2 q_neutral [])) ! 0 =
     (((0.6, 0.5, 0.23), (0, 0, 1, 0)), q_neutral, Inr JointResult_new) \<and>
   \<not> valid JointResult_new \<and>
   map fst (solves (snd (pick_place w_down ((0.6, 0.5, 0.03), (0, 0, 1, 0))
          ((0.6, -0.5, 0.02), (0, 0, 1, 0)) 0.7 0.2 q_neutral []))) =
     [((0.6, 0.5, 0.23), (0, 0, 1, 0)), ((0.6, 0.5, 0.03), (0, 0, 1, 0))] \<and>
   fst (pick_place w_ok ((0.6, 0.5, 0.03), (0, 0, 1, 0)) ((0.6, -0.5, 0.02), (0, 0, 1, 0))
          0.7 0.2 q_neutral []) = Inr () \<and>
   map fst (solves (snd (pick_place w_ok ((0.6, 0.5, 0.03), (0, 0, 1, 0))
          ((0.6, -0.5, 0.02), (0, 0, 1, 0)) 0.7 0.2 q_neutral []))) =
     [((0.6, 0.5, 0.23), (0, 0, 1, 0)), ((0.6, 0.5, 0.03), (0, 0, 1, 0)),
      ((0.6, 0.5, 0.23), (0, 0, 1, 0)), ((0.6, -0.5, 0.22), (0, 0, 1, 0)),
      ((0.6, -0.5, 0.02), (0, 0, 1, 0)), ((0.6, -0.5, 0.22), (0, 0, 1, 0))]"
proof -
  let ?t = "snd (pick_place w_down ((0.6, 0.5, 0.03), (0, 0, 1, 0))
          ((0.6, -0.5, 0.02), (0, 0, 1, 0)) 0.7 0.2 q_neutral [])"
  let ?u = "snd (pick_place w_ok ((0.6, 0.5, 0.03), (0, 0, 1, 0))
          ((0.6, -0.5, 0.02), (0, 0, 1, 0)) 0.7 0.2 q_neutral [])"
  have a: "solves ?t ! 0 = (((0.6, 0.5, 0.23), (0, 0, 1, 0)), q_neutral, Inr JointResult_new)"
    and l: "0 < length (solves ?t)"
    unfolding solves_run_down by simp_all
  have v: "\<not> valid JointResult_new" by (simp add: JointResult_new_def)
  from pick_place_waypoints[of w_down "0.6" "0.5" "0.03" "(0, 0, 1, 0)" "0.6" "-0.5" "0.02"
      "(0, 0, 1, 0)" "0.7" "0.2" q_neutral "[]"]
  obtain t where t: "?t = [] @ t"
    and imp: "\<forall>i p s res. i < 5 \<and> i < length (solves t) \<and> solves t ! i = (p, s, Inr res) \<and>
            \<not> valid res \<longrightarrow>
        map fst (solves t) = take (Suc (Suc i))
         [((0.6, 0.5, 0.03 + 0.2), (0, 0, 1, 0)), ((0.6, 0.5, 0.03), (0, 0, 1, 0)),
          ((0.6, 0.5, 0.03 + 0.2), (0, 0, 1, 0)), ((0.6, -0.5, 0.02 + 0.2), (0, 0, 1, 0)),
          ((0.6, -0.5, 0.02), (0, 0, 1, 0)), ((0.6, -0.5, 0.02 + 0.2), (0, 0, 1, 0))]"
    by (elim exE conjE) (rule that)
  from t have "t = ?t" by simp
  moreover have "(0::nat) < 5" by simp
  ultimately have "map fst (solves ?t) = take (Suc (Suc 0))
         [((0.6, 0.5, 0.03 + 0.2), (0, 0, 1, 0)), ((0.6, 0.5, 0.03), (0, 0, 1, 0)),
          ((0.6, 0.5, 0.03 + 0.2), (0, 0, 1, 0)), ((0.6, -0.5, 0.02 + 0.2), (0, 0, 1, 0)),
          ((0.6, -0.5, 0.02), (0, 0, 1, 0)), ((0.6, -0.5, 0.02 + 0.2), (0, 0, 1, 0))]"
    using imp a l v by blast
  then have c: "map fst (solves ?t) =
     [((0.6, 0.5, 0.23), (0, 0, 1, 0)), ((0.6, 0.5, 0.03), (0, 0, 1, 0))]"
    by simp
  have r: "fst (pick_place w_ok ((0.6, 0.5, 0.03), (0, 0, 1, 0)) ((0.6, -0.5, 0.02), (0, 0, 1, 0))
          0.7 0.2 q_neutral []) = Inr ()"
    using run_ok by blast
  from pick_place_waypoints[of w_ok "0.6" "0.5" "0.03" "(0, 0, 1, 0)" "0.6" "-0.5" "0.02"
      "(0, 0, 1, 0)" "0.7" "0.2" q_neutral "[]"]
  obtain u where u: "?u = [] @ u"
    and six: "fst (pick_place w_ok ((0.6, 0.5, 0.03), (0, 0, 1, 0))
          ((0.6, -0.5, 0.02), (0, 0, 1, 0)) 0.7 0.2 q_neutral []) = Inr () \<longrightarrow>
        map fst (solves u) =
         [((0.6, 0.5, 0.03 + 0.2), (0, 0, 1, 0)), ((0.6, 0.5, 0.03), (0, 0, 1, 0)),
          ((0.6, 0.5, 0.03 + 0.2), (0, 0, 1, 0)), ((0.6, -0.5, 0.02 + 0.2), (0, 0, 1, 0)),
          ((0.6, -0.5, 0.02), (0, 0, 1, 0)), ((0.6, -0.5, 0.02 + 0.2), (0, 0, 1, 0))]"
    by (elim exE conjE) (rule that)
  from u have ueq: "u = ?u" by simp
  from six r have "map fst (solves u) =
         [((0.6, 0.5, 0.03 + 0.2), (0, 0, 1, 0)), ((0.6, 0.5, 0.03), (0, 0, 1, 0)),
          ((0.6, 0.5, 0.03 + 0.2), (0, 0, 1, 0)), ((0.6, -0.5, 0.02 + 0.2), (0, 0, 1, 0)),
          ((0.6, -0.5, 0.02), (0, 0, 1, 0)), ((0.6, -0.5, 0.02 + 0.2), (0, 0, 1, 0))]"
    by (rule mp)
  then have "map fst (solves ?u) =
         [((0.6, 0.5, 0.03 + 0.2), (0, 0, 1, 0)), ((0.6, 0.5, 0.03), (0, 0, 1, 0)),
          ((0.6, 0.5, 0.03 + 0.2), (0, 0, 1, 0)), ((0.6, -0.5, 0.02 + 0.2), (0, 0, 1, 0)),
          ((0.6, -0.5, 0.02), (0, 0, 1, 0)), ((0.6, -0.5, 0.02 + 0.2), (0, 0, 1, 0))]"
    by (simp only: ueq)
  then have d: "map fst (solves ?u) =
     [((0.6, 0.5, 0.23), (0, 0, 1, 0)), ((0.6, 0.5, 0.03), (0, 0, 1, 0)),
      ((0.6, 0.5, 0.23), (0, 0, 1, 0)), ((0.6, -0.5, 0.22), (0, 0, 1, 0)),
      ((0.6, -0.5, 0.02), (0, 0, 1, 0)), ((0.6, -0.5, 0.22), (0, 0, 1, 0))]"
    by simp
  from a v c r d show ?thesis by (intro conjI)
qed

text \<open>
  C4. In every run of \<open>pick_place\<close> the first call of \<open>get_ik\<close> is made, with the given
  configuration as seed; and when one of the first five calls returned a valid result, the
  next call is made, and its seed is the \<open>jangles\<close> of that result.
\<close>

theorem seed_propagation:
  "\<exists>t. snd (pick_place w ((xi, yi, zi), qi) ((xf, yf, zf), qf) g z qinit h) = h @ t \<and>
       solves t \<noteq> [] \<and> fst (snd (solves t ! 0)) = qinit \<and>
       (\<forall>i p s res. i < 5 \<and> i < length (solves t) \<and> solves t ! i = (p, s, Inr res) \<and> valid res
          \<longrightarrow> Suc i < length (solves t) \<and> fst (snd (solves t ! Suc i)) = jangles res)"
proof -
  have "\<exists>t. snd (pick_place w ((xi, yi, zi), qi) ((xf, yf, zf), qf) g z qinit h) = h @ t \<and>
       solves (commands t) \<noteq> [] \<and> fst (snd (solves (commands t) ! 0)) = qinit \<and>
       (\<forall>i p s res. i < 5 \<and> i < length (solves (commands t)) \<and>
            solves (commands t) ! i = (p, s, Inr res) \<and> valid res
          \<longrightarrow> Suc i < length (solves (commands t)) \<and>
              fst (snd (solves (commands t) ! Suc i)) = jangles res)"
    by (rule pick_place_run) (auto simp: less_Suc_eq eval_nat_numeral)
  then show ?thesis by (simp only: solves_commands)
qed

text \<open>
  In the answering world the fifth call returns a valid result; the sixth call is made,
  seeded with that result.
\<close>

theorem seed_propagation_witness:
  "solves (snd (pick_place w_ok ((0.6, 0.5, 0.03), (0, 0, 1, 0))
          ((0.6, -0.5, 0.02), (0, 0, 1, 0)) 0.7 0.2 q_neutral [])) ! 4 =
     (((0.6, -0.5, 0.02), (0, 0, 1, 0)), q_ok, Inr r_ok) \<and>
   valid r_ok \<and>
   Suc 4 < length (solves (snd (pick_place w_ok ((0.6, 0.5, 0.03), (0, 0, 1, 0))
          ((0.6, -0.5, 0.02), (0, 0, 1, 0)) 0.7 0.2 q_neutral []))) \<and>
   fst (snd (solves (snd (pick_place w_ok ((0.6, 0.5, 0.03), (0, 0, 1, 0))
          ((0.6, -0.5, 0.02), (0, 0, 1, 0)) 0.7 0.2 q_neutral [])) ! Suc 4)) = jangles r_ok"
proof -
  let ?t = "snd (pick_place w_ok ((0.6, 0.5, 0.03), (0, 0, 1, 0))
          ((0.6, -0.5, 0.02), (0, 0, 1, 0)) 0.7 0.2 q_neutral [])"
  have a: "solves ?t ! 4 = (((0.6, -0.5, 0.02), (0, 0, 1, 0)), q_ok, Inr r_ok)"
    and l: "4 < length (solves ?t)"
    unfolding solves_run_ok by simp_all
  have v: "valid r_ok" by (simp add: r_ok_def)
  from seed_propagation[of w_ok "0.6" "0.5" "0.03" "(0, 0, 1, 0)" "0.6" "-0.5" "0.02"
      "(0, 0, 1, 0)" "0.7" "0.2" q_neutral "[]"]
  obtain t where t: "?t = [] @ t"
    and imp: "\<forall>i p s res. i < 5 \<and> i < length (solves t) \<and> solves t ! i = (p, s, Inr res) \<and>
        valid res \<longrightarrow> Suc i < length (solves t) \<and> fst (snd (solves t ! Suc i)) = jangles res"
    by (elim exE conjE) (rule that)
  from t have "t = ?t" by simp
  moreover have "(4::nat) < 5" by simp
  ultimately have "Suc 4 < length (solves ?t) \<and> fst (snd (solves ?t ! Suc 4)) = jangles r_ok"
    using imp a l v by blast
  with a v show ?thesis by (intro conjI) simp_all
qed

text \<open>
  C5, as stated, fails for a seed without the joint names: the service is not available,
  and \<open>get_ik\<close> does not return a result that is not valid; it raises \<open>KeyError\<close> before
  it waits for the service.
\<close>

theorem get_ik_missing_seed_counterexample:
  "wait_for_service w_down [] IKService 5 = Some ROSException \<and>
   get_ik w_down ((0.6, 0.5, 0.03), (0, 0, 1, 0)) Map.empty [] = (Inl (KeyError ''right_j0''), [])"
  by (simp add: get_ik_no_j0 w_down_def w_ok_def)

text \<open>
  C5, amended. For every pose and every seed that holds all seven joint names, one call of
  \<open>get_ik\<close> waits for the service once, with the timeout 5, and calls it at most once, with
  the request built from the pose and the seed. It returns a result that is not valid
  exactly when the wait raises \<open>ROSException\<close> or \<open>ServiceException\<close>, or the call raises
  one of the two, or the first result code of the answer is at most 0. When the first result
  code is positive and the answer holds a solution, it returns the valid result whose
  \<open>jangles\<close> pair the names of the first solution with its positions.
\<close>

theorem get_ik_contract:
  assumes "list_all (\<lambda>n. q n \<noteq> None) joint_names"
  shows "\<exists>t. snd (get_ik w p q h) = h @ t \<and>
     (filter is_service_event t = [WaitForService IKService 5] \<or>
      filter is_service_event t =
        [WaitForService IKService 5, CallService IKService (ik_request_for p q)]) \<and>
     ((\<exists>res. fst (get_ik w p q h) = Inr res \<and> \<not> valid res) \<longleftrightarrow>
        (wait_for_service w h IKService 5 = Some ROSException \<or>
         wait_for_service w h IKService 5 = Some ServiceException \<or>
         (wait_for_service w h IKService 5 = None \<and>
          (ik_client w (h @ [WaitForService IKService 5]) (ik_request_for p q) = Inl ServiceException \<or>
           ik_client w (h @ [WaitForService IKService 5]) (ik_request_for p q) = Inl ROSException \<or>
           (\<exists>resp code rest.
              ik_client w (h @ [WaitForService IKService 5]) (ik_request_for p q) = Inr resp \<and>
              result_type resp = code # rest \<and> code \<le> 0))))) \<and>
     (\<forall>resp code rest sol sols.
        wait_for_service w h IKService 5 = None \<and>
        ik_client w (h @ [WaitForService IKService 5]) (ik_request_for p q) = Inr resp \<and>
        result_type resp = code # rest \<and> 0 < code \<and> joints resp = sol # sols \<longrightarrow>
        fst (get_ik w p q h) = Inr \<lparr>jangles = dict_zip (name sol) (position sol), valid = True\<rparr>)"
proof (cases "wait_for_service w h IKService 5")
  case None
  note w = this
  show ?thesis
  proof (cases "ik_client w (h @ [WaitForService IKService 5]) (ik_request_for p q)")
    case (Inl e)
    with w show ?thesis
      by (simp add: get_ik_unfold[OF assms] JointResult_new_def)
  next
    case (Inr resp)
    with w show ?thesis
      by (cases "result_type resp"; cases "joints resp")
         (auto simp: get_ik_unfold[OF assms] JointResult_new_def)
  qed
next
  case (Some e)
  then show ?thesis
    by (auto simp: get_ik_unfold[OF assms] JointResult_new_def)
qed

text \<open>
  With the neutral seed: the service node down gives a result that is not valid, the
  answering service gives the valid result with the seven joints of its answer.
\<close>

theorem get_ik_contract_witness:
  "list_all (\<lambda>n. q_neutral n \<noteq> None) joint_names \<and>
   wait_for_service w_down [] IKService 5 = Some ROSException \<and>
   (\<exists>res. fst (get_ik w_down ((0.6, 0.5, 0.03), (0, 0, 1, 0)) q_neutral []) = Inr res \<and>
          \<not> valid res) \<and>
   fst (get_ik w_ok ((0.6, 0.5, 0.03), (0, 0, 1, 0)) q_neutral []) =
     Inr \<lparr>jangles = dict_zip joint_names [0.1, 0.2, 0.3, 0.4, 0.5, 0.6, 0.7], valid = True\<rparr>"
proof -
  have d: "wait_for_service w_down [] IKService 5 = Some ROSException"
    by (simp add: w_down_def w_ok_def)
  from get_ik_contract[OF q_neutral_complete, of w_down "((0.6, 0.5, 0.03), (0, 0, 1, 0))" "[]"] d
  have 1: "\<exists>res. fst (get_ik w_down ((0.6, 0.5, 0.03), (0, 0, 1, 0)) q_neutral []) = Inr res \<and>
          \<not> valid res"
    by blast
  have "wait_for_service w_ok [] IKService 5 = None"
    and "ik_client w_ok ([] @ [WaitForService IKService 5])
           (ik_request_for ((0.6, 0.5, 0.03), (0, 0, 1, 0)) q_neutral) =
         Inr \<lparr>joints = [\<lparr>name = joint_names, position = [0.1, 0.2, 0.3, 0.4, 0.5, 0.6, 0.7]\<rparr>],
              result_type = [1]\<rparr>"
    by (simp_all add: w_ok_def)
  with get_ik_contract[OF q_neutral_complete, of w_ok "((0.6, 0.5, 0.03), (0, 0, 1, 0))" "[]"]
  have 2: "fst (get_ik w_ok ((0.6, 0.5, 0.03), (0, 0, 1, 0)) q_neutral []) =
     Inr \<lparr>jangles = dict_zip joint_names [0.1, 0.2, 0.3, 0.4, 0.5, 0.6, 0.7], valid = True\<rparr>"
    by fastforce
  from q_neutral_complete d 1 2 show ?thesis by blast
qed



text \<open>
  C7. What the program does where the claim asks for the six waypoints of the demo task.
  For the start \<open>(0.6, 0.5, 0.03)\<close>, the end \<open>(0.6, -0.5, 0.02)\<close>, one orientation \<open>q0\<close> for
  both (the quaternion of the rotation is computed outside this file), the clearance \<open>0.2\<close>
  and the opening \<open>0.7\<close>: the poses handed to \<open>get_ik\<close> are, in order, an initial part of
  \<open>z = 0.23, 0.03, 0.23\<close> over the start and \<open>z = 0.22, 0.02, 0.22\<close> over the end; when every
  call of \<open>get_ik\<close> in the run returned a valid result, all six poses are handed over, and
  the arm and gripper commands are two moves, the gripper set to \<open>0.7\<close>, three moves, the
  gripper opened, one move. But when one of the first five calls returned a result that is
  not valid, the poses handed over end with the one after that call: the plan is cut there.
\<close>

theorem demo_task_scenario:
  "\<exists>t. snd (pick_place w ((0.6, 0.5, 0.03), q0) ((0.6, -0.5, 0.02), q0) 0.7 0.2 qinit h) = h @ t \<and>
     prefix (map fst (solves t))
       [((0.6, 0.5, 0.23), q0), ((0.6, 0.5, 0.03), q0), ((0.6, 0.5, 0.23), q0),
        ((0.6, -0.5, 0.22), q0), ((0.6, -0.5, 0.02), q0), ((0.6, -0.5, 0.22), q0)] \<and>
     (all_valid t \<longrightarrow>
        map fst (solves t) =
          [((0.6, 0.5, 0.23), q0), ((0.6, 0.5, 0.03), q0), ((0.6, 0.5, 0.23), q0),
           ((0.6, -0.5, 0.22), q0), ((0.6, -0.5, 0.02), q0), ((0.6, -0.5, 0.22), q0)] \<and>
        (\<exists>j1 j2 j3 j4 j5 j6. actions t =
          [MoveToJointPositions j1, MoveToJointPositions j2, SetPosition 0.7,
           MoveToJointPositions j3, MoveToJointPositions j4, MoveToJointPositions j5,
           GripperOpen, MoveToJointPositions j6])) \<and>
     (\<forall>i p s res. i < 5 \<and> i < length (solves t) \<and> solves t ! i = (p, s, Inr res) \<and>
          \<not> valid res \<longrightarrow>
        map fst (solves t) = take (Suc (Suc i))
          [((0.6, 0.5, 0.23), q0), ((0.6, 0.5, 0.03), q0), ((0.6, 0.5, 0.23), q0),
           ((0.6, -0.5, 0.22), q0), ((0.6, -0.5, 0.02), q0), ((0.6, -0.5, 0.22), q0)])"
proof -
  have "\<exists>t. snd (pick_place w ((0.6, 0.5, 0.03), q0) ((0.6, -0.5, 0.02), q0) 0.7 0.2 qinit h) = h @ t \<and>
     prefix (map fst (solves (commands t)))
       [((0.6, 0.5, 0.23), q0), ((0.6, 0.5, 0.03), q0), ((0.6, 0.5, 0.23), q0),
        ((0.6, -0.5, 0.22), q0), ((0.6, -0.5, 0.02), q0), ((0.6, -0.5, 0.22), q0)] \<and>
     (all_valid (commands t) \<longrightarrow>
        map fst (solves (commands t)) =
          [((0.6, 0.5, 0.23), q0), ((0.6, 0.5, 0.03), q0), ((0.6, 0.5, 0.23), q0),
           ((0.6, -0.5, 0.22), q0), ((0.6, -0.5, 0.02), q0), ((0.6, -0.5, 0.22), q0)] \<and>
        (\<exists>j1 j2 j3 j4 j5 j6. actions (commands t) =
          [MoveToJointPositions j1, MoveToJointPositions j2, SetPosition 0.7,
           MoveToJointPositions j3, MoveToJointPositions j4, MoveToJointPositions j5,
           GripperOpen, MoveToJointPositions j6])) \<and>
     (\<forall>i p s res. i < 5 \<and> i < length (solves (commands t)) \<and>
          solves (commands t) ! i = (p, s, Inr res) \<and> \<not> valid res \<longrightarrow>
        map fst (solves (commands t)) = take (Suc (Suc i))
          [((0.6, 0.5, 0.23), q0), ((0.6, 0.5, 0.03), q0), ((0.6, 0.5, 0.23), q0),
           ((0.6, -0.5, 0.22), q0), ((0.6, -0.5, 0.02), q0), ((0.6, -0.5, 0.22), q0)])"
  proof (rule pick_place_run, goal_cases)
    case (1 e)
    show ?case by (auto simp: all_valid_def less_Suc_eq eval_nat_numeral)
  next
    case (2 r1 e)
    show ?case by (auto simp: all_valid_def less_Suc_eq eval_nat_numeral)
  next
    case (3 r1 r2 e)
    then have v: "valid r1" using feasible_valid by blast
    then show ?case by (auto simp: all_valid_def less_Suc_eq eval_nat_numeral)
  next
    case (4 r1 r2 r3 e)
    then have v: "valid r1" "valid r2" using feasible_valid by blast+
    then show ?case by (auto simp: all_valid_def less_Suc_eq eval_nat_numeral)
  next
    case (5 r1 r2 r3 r4 e)
    then have v: "valid r1" "valid r2" "valid r3" using feasible_valid by blast+
    then show ?case by (auto simp: all_valid_def less_Suc_eq eval_nat_numeral)
  next
    case (6 r1 r2 r3 r4 r5 e)
    then have v: "valid r1" "valid r2" "valid r3" "valid r4" using feasible_valid by blast+
    then show ?case by (auto simp: all_valid_def less_Suc_eq eval_nat_numeral)
  next
    case (7 r1 r2 r3 r4 r5 r6)
    then have v: "valid r1" "valid r2" "valid r3" "valid r4" "valid r5"
      using feasible_valid by blast+
    then show ?case by (auto simp: all_valid_def mv_def less_Suc_eq eval_nat_numeral)
  qed
  then show ?thesis
    by (simp only: solves_commands actions_commands all_valid_commands)
qed

text \<open>
  With the service node down only \<open>z = 0.23\<close> and \<open>z = 0.03\<close> over the start are handed
  over; in the answering world every result is valid, and the eight commands follow.
\<close>

theorem demo_task_scenario_witness:
  "solves (snd (pick_place w_down ((0.6, 0.5, 0.03), (0, 0, 1, 0))
          ((0.6, -0.5, 0.02), (0, 0, 1, 0)) 0.7 0.2 q_neutral [])) ! 0 =
     (((0.6, 0.5, 0.23), (0, 0, 1, 0)), q_neutral, Inr JointResult_new) \<and>
   \<not> valid JointResult_new \<and>
   map fst (solves (snd (pick_place w_down ((0.6, 0.5, 0.03), (0, 0, 1, 0))
          ((0.6, -0.5, 0.02), (0, 0, 1, 0)) 0.7 0.2 q_neutral []))) =
     [((0.6, 0.5, 0.23), (0, 0, 1, 0)), ((0.6, 0.5, 0.03), (0, 0, 1, 0))] \<and>
   all_valid (snd (pick_place w_ok ((0.6, 0.5, 0.03), (0, 0, 1, 0))
          ((0.6, -0.5, 0.02), (0, 0, 1, 0)) 0.7 0.2 q_neutral [])) \<and>
   map fst (solves (snd (pick_place w_ok ((0.6, 0.5, 0.03), (0, 0, 1, 0))
          ((0.6, -0.5, 0.02), (0, 0, 1, 0)) 0.7 0.2 q_neutral []))) =
     [((0.6, 0.5, 0.23), (0, 0, 1, 0)), ((0.6, 0.5, 0.03), (0, 0, 1, 0)),
      ((0.6, 0.5, 0.23), (0, 0, 1, 0)), ((0.6, -0.5, 0.22), (0, 0, 1, 0)),
      ((0.6, -0.5, 0.02), (0, 0, 1, 0)), ((0.6, -0.5, 0.22), (0, 0, 1, 0))] \<and>
   actions (snd (pick_place w_ok ((0.6, 0.5, 0.03), (0, 0, 1, 0))
          ((0.6, -0.5, 0.02), (0, 0, 1, 0)) 0.7 0.2 q_neutral [])) =
     [MoveToJointPositions q_ok, MoveToJointPositions q_ok, SetPosition 0.7,
      MoveToJointPositions q_ok, MoveToJointPositions q_ok, MoveToJointPositions q_ok,
      GripperOpen, MoveToJointPositions q_ok]"
proof -
  let ?t = "snd (pick_place w_down ((0.6, 0.5, 0.03), (0, 0, 1, 0))
          ((0.6, -0.5, 0.02), (0, 0, 1, 0)) 0.7 0.2 q_neutral [])"
  let ?u = "snd (pick_place w_ok ((0.6, 0.5, 0.03), (0, 0, 1, 0))
          ((0.6, -0.5, 0.02), (0, 0, 1, 0)) 0.7 0.2 q_neutral [])"
  have s0: "solves ?t ! 0 = (((0.6, 0.5, 0.23), (0, 0, 1, 0)), q_neutral, Inr JointResult_new)"
    and l: "0 < length (solves ?t)"
    unfolding solves_run_down by simp_all
  have v: "\<not> valid JointResult_new" by (simp add: JointResult_new_def)
  from demo_task_scenario[of w_down "(0, 0, 1, 0)" q_neutral "[]"]
  obtain t where t: "?t = [] @ t"
    and cut: "\<forall>i p s res. i < 5 \<and> i < length (solves t) \<and> solves t ! i = (p, s, Inr res) \<and>
          \<not> valid res \<longrightarrow>
        map fst (solves t) = take (Suc (Suc i))
          [((0.6, 0.5, 0.23), (0, 0, 1, 0)), ((0.6, 0.5, 0.03), (0, 0, 1, 0)),
           ((0.6, 0.5, 0.23), (0, 0, 1, 0)), ((0.6, -0.5, 0.22), (0, 0, 1, 0)),
           ((0.6, -0.5, 0.02), (0, 0, 1, 0)), ((0.6, -0.5, 0.22), (0, 0, 1, 0))]"
    by (elim exE conjE) (rule that)
  from t have "t = ?t" by simp
  moreover have "(0::nat) < 5" by simp
  ultimately have "map fst (solves ?t) = take (Suc (Suc 0))
          [((0.6, 0.5, 0.23), (0, 0, 1, 0)), ((0.6, 0.5, 0.03), (0, 0, 1, 0)),
           ((0.6, 0.5, 0.23), (0, 0, 1, 0)), ((0.6, -0.5, 0.22), (0, 0, 1, 0)),
           ((0.6, -0.5, 0.02), (0, 0, 1, 0)), ((0.6, -0.5, 0.22), (0, 0, 1, 0))]"
    using cut s0 l v by blast
  then have two: "map fst (solves ?t) =
     [((0.6, 0.5, 0.23), (0, 0, 1, 0)), ((0.6, 0.5, 0.03), (0, 0, 1, 0))]"
    by simp
  have "all_valid (commands ?u)"
    using run_ok by (simp add: all_valid_def r_ok_def)
  then have a: "all_valid ?u" by (simp only: all_valid_commands)
  have "actions (commands ?u) =
     [MoveToJointPositions q_ok, MoveToJointPositions q_ok, SetPosition 0.7,
      MoveToJointPositions q_ok, MoveToJointPositions q_ok, MoveToJointPositions q_ok,
      GripperOpen, MoveToJointPositions q_ok]"
    using run_ok by (simp del: actions_commands)
  then have c: "actions ?u =
     [MoveToJointPositions q_ok, MoveToJointPositions q_ok, SetPosition 0.7,
      MoveToJointPositions q_ok, MoveToJointPositions q_ok, MoveToJointPositions q_ok,
      GripperOpen, MoveToJointPositions q_ok]"
    by (simp only: actions_commands)
  from demo_task_scenario[of w_ok "(0, 0, 1, 0)" q_neutral "[]"]
  obtain u where u: "?u = [] @ u"
    and imp: "all_valid u \<longrightarrow> map fst (solves u) =
      [((0.6, 0.5, 0.23), (0, 0, 1, 0)), ((0.6, 0.5, 0.03), (0, 0, 1, 0)),
      ((0.6, 0.5, 0.23), (0, 0, 1, 0)), ((0.6, -0.5, 0.22), (0, 0, 1, 0)),
      ((0.6, -0.5, 0.02), (0, 0, 1, 0)), ((0.6, -0.5, 0.22), (0, 0, 1, 0))] \<and>
        (\<exists>j1 j2 j3 j4 j5 j6. actions u =
          [MoveToJointPositions j1, MoveToJointPositions j2, SetPosition 0.7,
           MoveToJointPositions j3, MoveToJointPositions j4, MoveToJointPositions j5,
           GripperOpen, MoveToJointPositions j6])"
    by (elim exE conjE) (rule that)
  from u have "u = ?u" by simp
  with imp a have six: "map fst (solves ?u) =
      [((0.6, 0.5, 0.23), (0, 0, 1, 0)), ((0.6, 0.5, 0.03), (0, 0, 1, 0)),
      ((0.6, 0.5, 0.23), (0, 0, 1, 0)), ((0.6, -0.5, 0.22), (0, 0, 1, 0)),
      ((0.6, -0.5, 0.02), (0, 0, 1, 0)), ((0.6, -0.5, 0.22), (0, 0, 1, 0))]"
    by (simp only: simp_thms)
  from s0 v two a six c show ?thesis by (intro conjI)
qed

text \<open>
  C8. When the gripper constructor raises, or the calibration raises, \<open>main\<close> ends at once:
  after the node is initialised (and, with a gripper, the calibration tried) it commands
  no arm motion and no gripper action; a \<open>ValueError\<close> is logged and \<open>main\<close> returns, any
  other exception leaves \<open>main\<close>.
  (With a gripper, \<open>main_with_gripper\<close> above, the neutral move and the opening follow.)
\<close>

theorem gripper_failure_halts:
  assumes "gripper_new w = Some e \<or> (gripper_new w = None \<and> gripper_calibrate w = Some e)"
  shows "\<exists>t. snd (main w h) = h @ t \<and>
     t = InitNode ''MoveCartesian'' #
         (if gripper_new w = None then [Calibrate] else []) @
         (if e = ValueError then [LogErr ''Could not detect a gripper''] else []) \<and>
     actions t = [] \<and>
     fst (main w h) = (if e = ValueError then Inr () else Inl e)"
  using assms
  unfolding main_def
  by (auto simp: prog_defs new_gripper_def calibrate_def)

text \<open>
  Without a gripper, \<open>main\<close> initialises the node, logs the error and returns.
\<close>

theorem gripper_failure_halts_witness:
  "gripper_new w_no_gripper = Some ValueError \<and>
   main w_no_gripper [] =
     (Inr (), [InitNode ''MoveCartesian'', LogErr ''Could not detect a gripper''])"
proof -
  have g: "gripper_new w_no_gripper = Some ValueError"
    by (simp add: w_no_gripper_def)
  then have "gripper_new w_no_gripper = Some ValueError \<or>
      (gripper_new w_no_gripper = None \<and> gripper_calibrate w_no_gripper = Some ValueError)"
    by simp
  from gripper_failure_halts[OF this, of "[]"] g
  have "main w_no_gripper [] =
     (Inr (), [InitNode ''MoveCartesian'', LogErr ''Could not detect a gripper''])"
    by (cases "main w_no_gripper []") simp
  with g show ?thesis by blast
qed

text \<open>
  C9. What the program does where the claim asks for both gripper actions in every run.
  In every run of \<open>pick_place\<close> the gripper is set to the given opening exactly when the
  first two calls of \<open>get_ik\<close> returned a result, and opened after that exactly when the
  first five did. So when a call returned a result that is not valid: after the first call
  the gripper is neither set nor opened; after the second, third or fourth it is set to
  the opening once and never opened; after the fifth or sixth it is set and then opened.
\<close>

theorem gripper_actions_issued:
  "\<exists>t. snd (pick_place w ((xi, yi, zi), qi) ((xf, yf, zf), qf) g z qinit h) = h @ t \<and>
     filter is_gripper_action t =
       (if returned 5 t then [SetPosition g, GripperOpen]
        else if returned 2 t then [SetPosition g] else []) \<and>
     (\<forall>i p s res. i < length (solves t) \<and> solves t ! i = (p, s, Inr res) \<and> \<not> valid res \<longrightarrow>
        filter is_gripper_action t =
          (if i = 0 then [] else if i < 4 then [SetPosition g] else [SetPosition g, GripperOpen]))"
proof -
  have "\<exists>t. snd (pick_place w ((xi, yi, zi), qi) ((xf, yf, zf), qf) g z qinit h) = h @ t \<and>
     filter is_gripper_action (commands t) =
       (if returned 5 (commands t) then [SetPosition g, GripperOpen]
        else if returned 2 (commands t) then [SetPosition g] else []) \<and>
     (\<forall>i p s res. i < length (solves (commands t)) \<and>
          solves (commands t) ! i = (p, s, Inr res) \<and> \<not> valid res \<longrightarrow>
        filter is_gripper_action (commands t) =
          (if i = 0 then [] else if i < 4 then [SetPosition g] else [SetPosition g, GripperOpen]))"
  proof (rule pick_place_run, goal_cases)
    case (1 e)
    show ?case by (auto simp: returned_def less_Suc_eq eval_nat_numeral)
  next
    case (2 r1 e)
    show ?case by (auto simp: returned_def less_Suc_eq eval_nat_numeral)
  next
    case (3 r1 r2 e)
    then have v: "valid r1" using feasible_valid by blast
    then show ?case by (auto simp: returned_def less_Suc_eq eval_nat_numeral)
  next
    case (4 r1 r2 r3 e)
    then have v: "valid r1" "valid r2" using feasible_valid by blast+
    then show ?case by (auto simp: returned_def less_Suc_eq eval_nat_numeral)
  next
    case (5 r1 r2 r3 r4 e)
    then have v: "valid r1" "valid r2" "valid r3" using feasible_valid by blast+
    then show ?case by (auto simp: returned_def less_Suc_eq eval_nat_numeral)
  next
    case (6 r1 r2 r3 r4 r5 e)
    then have v: "valid r1" "valid r2" "valid r3" "valid r4" using feasible_valid by blast+
    then show ?case by (auto simp: returned_def less_Suc_eq eval_nat_numeral)
  next
    case (7 r1 r2 r3 r4 r5 r6)
    then have v: "valid r1" "valid r2" "valid r3" "valid r4" "valid r5"
      using feasible_valid by blast+
    then show ?case by (auto simp: returned_def less_Suc_eq eval_nat_numeral)
  qed
  then show ?thesis by (simp only: solves_commands gripper_actions_commands returned_commands)
qed

text \<open>
  Where the service finds no solution for the grasp pose, the second call returns a result
  that is not valid: the gripper is set to the opening and never opened. With the service
  node down the first call returns a result that is not valid: no gripper action at all.
\<close>

theorem gripper_actions_issued_witness:
  "solves (snd (pick_place w_no_grasp ((0.6, 0.5, 0.03), (0, 0, 1, 0))
          ((0.6, -0.5, 0.02), (0, 0, 1, 0)) 0.7 0.2 q_neutral [])) ! 1 =
     (((0.6, 0.5, 0.03), (0, 0, 1, 0)), q_ok, Inr JointResult_new) \<and>
   \<not> valid JointResult_new \<and>
   filter is_gripper_action (snd (pick_place w_no_grasp ((0.6, 0.5, 0.03), (0, 0, 1, 0))
          ((0.6, -0.5, 0.02), (0, 0, 1, 0)) 0.7 0.2 q_neutral [])) = [SetPosition 0.7] \<and>
   solves (snd (pick_place w_down ((0.6, 0.5, 0.03), (0, 0, 1, 0))
          ((0.6, -0.5, 0.02), (0, 0, 1, 0)) 0.7 0.2 q_neutral [])) ! 0 =
     (((0.6, 0.5, 0.23), (0, 0, 1, 0)), q_neutral, Inr JointResult_new) \<and>
   filter is_gripper_action (snd (pick_place w_down ((0.6, 0.5, 0.03), (0, 0, 1, 0))
          ((0.6, -0.5, 0.02), (0, 0, 1, 0)) 0.7 0.2 q_neutral [])) = []"
proof -
  let ?t = "snd (pick_place w_no_grasp ((0.6, 0.5, 0.03), (0, 0, 1, 0))
          ((0.6, -0.5, 0.02), (0, 0, 1, 0)) 0.7 0.2 q_neutral [])"
  let ?u = "snd (pick_place w_down ((0.6, 0.5, 0.03), (0, 0, 1, 0))
          ((0.6, -0.5, 0.02), (0, 0, 1, 0)) 0.7 0.2 q_neutral [])"
  have s1: "solves ?t ! 1 = (((0.6, 0.5, 0.03), (0, 0, 1, 0)), q_ok, Inr JointResult_new)"
    and l1: "1 < length (solves ?t)"
    unfolding solves_run_no_grasp by simp_all
  have s0: "solves ?u ! 0 = (((0.6, 0.5, 0.23), (0, 0, 1, 0)), q_neutral, Inr JointResult_new)"
    and l0: "0 < length (solves ?u)"
    unfolding solves_run_down by simp_all
  have v: "\<not> valid JointResult_new" by (simp add: JointResult_new_def)
  from gripper_actions_issued[of w_no_grasp "0.6" "0.5" "0.03" "(0, 0, 1, 0)" "0.6" "-0.5" "0.02"
      "(0, 0, 1, 0)" "0.7" "0.2" q_neutral "[]"]
  obtain t where t: "?t = [] @ t"
    and cut: "\<forall>i p s res. i < length (solves t) \<and> solves t ! i = (p, s, Inr res) \<and>
          \<not> valid res \<longrightarrow>
        filter is_gripper_action t =
          (if i = 0 then [] else if i < 4 then [SetPosition 0.7]
           else [SetPosition 0.7, GripperOpen])"
    by (elim exE conjE) (rule that)
  from t have "t = ?t" by simp
  then have "filter is_gripper_action ?t =
      (if (1::nat) = 0 then [] else if (1::nat) < 4 then [SetPosition 0.7]
       else [SetPosition 0.7, GripperOpen])"
    using cut s1 l1 v by blast
  then have a: "filter is_gripper_action ?t = [SetPosition 0.7]" by simp
  from gripper_actions_issued[of w_down "0.6" "0.5" "0.03" "(0, 0, 1, 0)" "0.6" "-0.5" "0.02"
      "(0, 0, 1, 0)" "0.7" "0.2" q_neutral "[]"]
  obtain u where u: "?u = [] @ u"
    and cut': "\<forall>i p s res. i < length (solves u) \<and> solves u ! i = (p, s, Inr res) \<and>
          \<not> valid res \<longrightarrow>
        filter is_gripper_action u =
          (if i = 0 then [] else if i < 4 then [SetPosition 0.7]
           else [SetPosition 0.7, GripperOpen])"
    by (elim exE conjE) (rule that)
  from u have "u = ?u" by simp
  then have "filter is_gripper_action ?u =
      (if (0::nat) = 0 then [] else if (0::nat) < 4 then [SetPosition 0.7]
       else [SetPosition 0.7, GripperOpen])"
    using cut' s0 l0 v by blast
  then have b: "filter is_gripper_action ?u = []" by simp
  from s1 v a s0 b show ?thesis by (intro conjI)
qed

text \<open>
  C10. A result of \<open>get_ik\<close> that is not valid has the empty dictionary as \<open>jangles\<close>, and
  a call of \<open>get_ik\<close> with these \<open>jangles\<close> as seed raises \<open>KeyError\<close>. For every seed,
  \<open>get_ik\<close> looks up the seven names \<^verbatim>\<open>right_j0\<close> to \<^verbatim>\<open>right_j6\<close>: when one is missing
  it raises \<open>KeyError\<close> for a missing name before anything else happens, and when all are
  there and the service is available the request carries their seven values.
\<close>

theorem invalid_result_cannot_seed:
  "(\<forall>res h'. get_ik w p q h = (Inr res, h') \<and> \<not> valid res \<longrightarrow>
      jangles res = Map.empty \<and> dom (jangles res) = {} \<and>
      (\<forall>w' p' h''. get_ik w' p' (jangles res) h'' = (Inl (KeyError ''right_j0''), h''))) \<and>
   (\<not> list_all (\<lambda>n. q n \<noteq> None) joint_names \<longrightarrow>
      (\<exists>n \<in> set joint_names. q n = None \<and> get_ik w p q h = (Inl (KeyError n), h))) \<and>
   (list_all (\<lambda>n. q n \<noteq> None) joint_names \<and> wait_for_service w h IKService 5 = None \<longrightarrow>
      CallService IKService (ik_request_for p q) \<in> set (snd (get_ik w p q h))) \<and>
   joint_names = [''right_j0'', ''right_j1'', ''right_j2'', ''right_j3'',
                  ''right_j4'', ''right_j5'', ''right_j6'']"
proof (intro conjI allI impI)
  fix res h'
  assume a: "get_ik w p q h = (Inr res, h') \<and> \<not> valid res"
  then have r: "res = JointResult_new" using get_ik_invalid by blast
  then show "jangles res = Map.empty" by (simp add: JointResult_new_def)
  then show "dom (jangles res) = {}" by simp
  fix w' p' h''
  from r show "get_ik w' p' (jangles res) h'' = (Inl (KeyError ''right_j0''), h'')"
    by (simp add: get_ik_no_j0 JointResult_new_def)
next
  assume "\<not> list_all (\<lambda>n. q n \<noteq> None) joint_names"
  then show "\<exists>n \<in> set joint_names. q n = None \<and> get_ik w p q h = (Inl (KeyError n), h)"
    by (rule get_ik_missing)
next
  assume a: "list_all (\<lambda>n. q n \<noteq> None) joint_names \<and> wait_for_service w h IKService 5 = None"
  then have s: "list_all (\<lambda>n. q n \<noteq> None) joint_names" by simp
  from a show "CallService IKService (ik_request_for p q) \<in> set (snd (get_ik w p q h))"
    by (auto simp: get_ik_unfold[OF s] split: sum.splits list.splits)
next
  show "joint_names = [''right_j0'', ''right_j1'', ''right_j2'', ''right_j3'',
                  ''right_j4'', ''right_j5'', ''right_j6'']"
    by (simp add: joint_names_def)
qed

text \<open>
  With the service node down and the neutral seed the result is the fresh one, and a call
  seeded with its \<open>jangles\<close> raises \<^verbatim>\<open>KeyError('right_j0')\<close>.
\<close>

theorem invalid_result_cannot_seed_witness:
  "get_ik w_down ((0.6, 0.5, 0.23), (0, 0, 1, 0)) q_neutral [] =
     (Inr JointResult_new, [WaitForService IKService 5, LogErr ''Service call failed: %s'']) \<and>
   \<not> valid JointResult_new \<and>
   jangles JointResult_new = Map.empty \<and>
   get_ik w_down ((0.6, 0.5, 0.03), (0, 0, 1, 0)) (jangles JointResult_new) [] =
     (Inl (KeyError ''right_j0''), [])"
proof -
  have g: "get_ik w_down ((0.6, 0.5, 0.23), (0, 0, 1, 0)) q_neutral [] =
     (Inr JointResult_new, [WaitForService IKService 5, LogErr ''Service call failed: %s''])"
    by (simp add: get_ik_unfold[OF q_neutral_complete] w_down_def w_ok_def)
  have v: "\<not> valid JointResult_new" by (simp add: JointResult_new_def)
  from invalid_result_cannot_seed[of w_down "((0.6, 0.5, 0.23), (0, 0, 1, 0))" q_neutral "[]"] g v
  have "jangles JointResult_new = Map.empty \<and>
     (\<forall>w' p' h''. get_ik w' p' (jangles JointResult_new) h'' = (Inl (KeyError ''right_j0''), h''))"
    by blast
  with g v show ?thesis by blast
qed

end
